theory Spec2Isabelle
  imports Complex_Main "HOL-Library.Multiset" "HOL-Library.Sublist"
begin

section \<open>JavaScript values as the scripts see them\<close>

text \<open>
  The three scripts (\<^verbatim>\<open>update_ability_map.js\<close>, \<^verbatim>\<open>update_pokemon_map.js\<close>,
  \<^verbatim>\<open>update_moves_es_map.js\<close>) handle parsed JSON documents. A number is a finite
  value or one of the three non-finite doubles (\<^verbatim>\<open>JSON.parse("1e999")\<close> is
  \<^verbatim>\<open>Infinity\<close>). \<^verbatim>\<open>undefined\<close> is \<open>None\<close> of an option. An object is the
  list of its properties in insertion order; a parsed object has each key once.
\<close>

datatype jnum = Fin rat | NaN | PosInf | NegInf

datatype json =
    JNull
  | JBool bool
  | JNum jnum
  | JStr string
  | JArr "json list"
  | JObj "(string \<times> json) list"

type_synonym obj = "(string \<times> json) list"

text \<open>JavaScript truthiness, as used by every \<^verbatim>\<open>x && ...\<close> and \<^verbatim>\<open>x ? a : b\<close>.\<close>

fun truthy :: "json \<Rightarrow> bool" where
  "truthy JNull = False"
| "truthy (JBool b) = b"
| "truthy (JNum (Fin q)) = (q \<noteq> 0)"
| "truthy (JNum NaN) = False"
| "truthy (JNum PosInf) = True"
| "truthy (JNum NegInf) = True"
| "truthy (JStr s) = (s \<noteq> [])"
| "truthy (JArr xs) = True"
| "truthy (JObj kv) = True"

fun truthy_opt :: "json option \<Rightarrow> bool" where
  "truthy_opt None = False"
| "truthy_opt (Some v) = truthy v"

text \<open>
  Property read \<^verbatim>\<open>x.k\<close> on a truthy value. Only objects carry the keys these scripts
  read (count, results, name, names, language, generation, id, type, types,
  damage_class); on a number, boolean, string or array those reads give \<^verbatim>\<open>undefined\<close>.
\<close>

fun get_prop :: "json \<Rightarrow> string \<Rightarrow> json option" where
  "get_prop (JObj kv) k = map_of kv k"
| "get_prop _ k = None"

text \<open>\<^verbatim>\<open>x && x.k\<close>: the guard the scripts put before each property read.\<close>

definition guarded_prop :: "json option \<Rightarrow> string \<Rightarrow> json option" where
  "guarded_prop x k = (case x of None \<Rightarrow> None | Some v \<Rightarrow> if truthy v then get_prop v k else None)"

text \<open>
  \<^verbatim>\<open>String(v)\<close>: the identity on a string. The rendering of any other value (number
  formatting, array joining) is not modelled; it is the parameter \<open>str\<close>, and every
  theorem holds for each choice of it.
\<close>

definition js_String :: "(json \<Rightarrow> string) \<Rightarrow> json \<Rightarrow> string" where
  "js_String str v = (case v of JStr s \<Rightarrow> s | _ \<Rightarrow> str v)"

text \<open>
  The elements a loop \<^verbatim>\<open>for (i = 0; i < x.length; i++) x[i]\<close> visits. For an array
  they are its elements, for a string its one-character strings. A number or a boolean
  has no \<^verbatim>\<open>length\<close>, so the loop body never runs. The documents of the catalog are
  arrays here; an object that carries a \<^verbatim>\<open>length\<close> key of its own is outside the
  model and is given no elements.
\<close>

fun elems :: "json \<Rightarrow> json list" where
  "elems (JArr xs) = xs"
| "elems (JStr s) = map (\<lambda>c. JStr [c]) s"
| "elems _ = []"

section \<open>Extractors\<close>

text \<open>
  The test of both name loops,
  \<^verbatim>\<open>n && n.language && n.language.name === "es" && n.name\<close>, for a locale \<open>l\<close>.
\<close>

definition name_in_lang :: "string \<Rightarrow> json \<Rightarrow> bool" where
  "name_in_lang l n =
     (truthy n \<and>
      (case get_prop n ''language'' of
         None \<Rightarrow> False
       | Some lg \<Rightarrow> truthy lg \<and> get_prop lg ''name'' = Some (JStr l)) \<and>
      truthy_opt (get_prop n ''name''))"

text \<open>The loop itself: the \<^verbatim>\<open>name\<close> of the first entry that passes the test.\<close>

fun first_named :: "string \<Rightarrow> json list \<Rightarrow> json option" where
  "first_named l [] = None"
| "first_named l (n # ns) =
     (if name_in_lang l n then get_prop n ''name'' else first_named l ns)"

text \<open>
  \<^verbatim>\<open>pickNameEsOrEn\<close> of the ability script: the names array (only a real array
  counts, \<^verbatim>\<open>Array.isArray\<close>), the es loop, the en loop, then the document's own
  \<^verbatim>\<open>name\<close>, then the empty string.
\<close>

definition pickNameEsOrEn :: "(json \<Rightarrow> string) \<Rightarrow> json \<Rightarrow> string" where
  "pickNameEsOrEn str j =
     (let names = (if truthy j
                   then (case get_prop j ''names'' of Some (JArr xs) \<Rightarrow> xs | _ \<Rightarrow> [])
                   else [])
      in case first_named ''es'' names of
           Some v \<Rightarrow> js_String str v
         | None \<Rightarrow>
             (case first_named ''en'' names of
                Some v \<Rightarrow> js_String str v
              | None \<Rightarrow>
                  (case guarded_prop (Some j) ''name'' of
                     Some v \<Rightarrow> if truthy v then js_String str v else []
                   | None \<Rightarrow> [])))"

text \<open>
  The record the ability worker stores for a fetched document \<open>a\<close> under the listing
  name \<open>name\<close>:
  \<^verbatim>\<open>gen = (a && a.generation && a.generation.name) ? String(a.generation.name) : null;
  id = (a && a.id) ? a.id : null;
  display = pickNameEsOrEn(a) || name;\<close>
\<close>

definition ability_display :: "(json \<Rightarrow> string) \<Rightarrow> json \<Rightarrow> json \<Rightarrow> json" where
  "ability_display str a name =
     (let d = pickNameEsOrEn str a in if d \<noteq> [] then JStr d else name)"

definition ability_record :: "(json \<Rightarrow> string) \<Rightarrow> json \<Rightarrow> json \<Rightarrow> obj option" where
  "ability_record str a name =
     (let gen = (case guarded_prop (guarded_prop (Some a) ''generation'') ''name'' of
                   Some v \<Rightarrow> if truthy v then JStr (js_String str v) else JNull
                 | None \<Rightarrow> JNull);
          ident = (case guarded_prop (Some a) ''id'' of
                     Some v \<Rightarrow> if truthy v then v else JNull
                   | None \<Rightarrow> JNull)
      in Some [(''id'', ident), (''gen'', gen), (''display'', ability_display str a name)])"

text \<open>
  \<^verbatim>\<open>pickSpanishName\<close> of the moves script: one loop, for es only, over
  \<^verbatim>\<open>mvJson && mvJson.names ? mvJson.names : []\<close>; the name is returned as it is,
  and \<^verbatim>\<open>null\<close> when the loop finds none.
\<close>

definition pickSpanishName :: "json \<Rightarrow> json" where
  "pickSpanishName mvJson =
     (let arr = (case guarded_prop (Some mvJson) ''names'' of
                   Some v \<Rightarrow> if truthy v then elems v else []
                 | None \<Rightarrow> [])
      in case first_named ''es'' arr of Some v \<Rightarrow> v | None \<Rightarrow> JNull)"

text \<open>
  The record of the moves worker:
  \<^verbatim>\<open>display: pickSpanishName(mv) || null,
  type: mv && mv.type ? mv.type.name : null,
  damage_class: mv && mv.damage_class ? mv.damage_class.name : null\<close>
  A field whose value is \<^verbatim>\<open>undefined\<close> is left out, as \<^verbatim>\<open>JSON.stringify\<close> does when
  the snapshot is written.
\<close>

definition moves_display :: "json \<Rightarrow> json" where
  "moves_display mv = (let d = pickSpanishName mv in if truthy d then d else JNull)"

definition sub_name :: "json \<Rightarrow> string \<Rightarrow> json option" where
  "sub_name mv k =
     (case guarded_prop (Some mv) k of
        Some t \<Rightarrow> if truthy t then get_prop t ''name'' else Some JNull
      | None \<Rightarrow> Some JNull)"

definition field_list :: "string \<Rightarrow> json option \<Rightarrow> obj" where
  "field_list k v = (case v of None \<Rightarrow> [] | Some x \<Rightarrow> [(k, x)])"

definition moves_record :: "json \<Rightarrow> json \<Rightarrow> obj option" where
  "moves_record mv name =
     Some ([(''display'', moves_display mv)]
           @ field_list ''type'' (sub_name mv ''type'')
           @ field_list ''damage_class'' (sub_name mv ''damage_class''))"

text \<open>
  The record of the pokemon worker:
  \<^verbatim>\<open>types = (p && p.types ? p.types : []).map(t => (t && t.type ? t.type.name : null))
                                           .filter(Boolean);
  map[name] = { id: (p && p.id) ? p.id : null, types: types };\<close>
  A truthy \<^verbatim>\<open>types\<close> that is not an array has no \<^verbatim>\<open>map\<close> method: the call throws
  inside the worker's \<^verbatim>\<open>try\<close>, which is the result \<open>None\<close>.
\<close>

definition pokemon_types :: "json \<Rightarrow> json list option" where
  "pokemon_types p =
     (case guarded_prop (Some p) ''types'' of
        None \<Rightarrow> Some []
      | Some v \<Rightarrow>
          if \<not> truthy v then Some []
          else (case v of
                  JArr ts \<Rightarrow>
                    Some (concat (map (\<lambda>t. case sub_name t ''type'' of
                                             Some x \<Rightarrow> if truthy x then [x] else []
                                           | None \<Rightarrow> []) ts))
                | _ \<Rightarrow> None))"

definition pokemon_record :: "json \<Rightarrow> json \<Rightarrow> obj option" where
  "pokemon_record p name =
     (case pokemon_types p of
        None \<Rightarrow> None
      | Some ts \<Rightarrow>
          Some [(''id'', (case guarded_prop (Some p) ''id'' of
                            Some v \<Rightarrow> if truthy v then v else JNull
                          | None \<Rightarrow> JNull)),
                (''types'', JArr ts)])"

section \<open>Count probe\<close>

text \<open>
  \<^verbatim>\<open>getCountFromListResponse\<close> (identical in the three scripts):
  \<^verbatim>\<open>const c = listJson && typeof listJson.count === "number" ? listJson.count : null;
  return (c !== null && isFinite(c)) ? c : null;\<close>
  The result \<^verbatim>\<open>null\<close> is \<open>None\<close>.
\<close>

definition getCountFromListResponse :: "json \<Rightarrow> rat option" where
  "getCountFromListResponse listJson =
     (let c = (if truthy listJson
               then (case get_prop listJson ''count'' of Some (JNum n) \<Rightarrow> Some n | _ \<Rightarrow> None)
               else None)
      in case c of Some (Fin q) \<Rightarrow> Some q | _ \<Rightarrow> None)"


section \<open>The bounded pool\<close>

text \<open>
  \<^verbatim>\<open>withPool(items, poolSize, workerFn)\<close> (identical in the three scripts):
  \<^verbatim>\<open>let p = 0;
  async function worker() { while (p < items.length) { const idx = p++; await workerFn(items[idx], idx); } }
  const n = Math.min(poolSize, items.length);
  await Promise.all(Array.from({ length: n }, worker));\<close>
  \<^verbatim>\<open>Math.min\<close> of a number and the list length, then the length \<^verbatim>\<open>Array.from\<close>
  reads from \<^verbatim>\<open>{ length: n }\<close>: NaN and everything below 1 give no worker, a
  fraction is truncated.
\<close>

definition js_min :: "jnum \<Rightarrow> nat \<Rightarrow> jnum" where
  "js_min a len =
     (case a of
        NaN \<Rightarrow> NaN
      | NegInf \<Rightarrow> NegInf
      | PosInf \<Rightarrow> Fin (of_nat len)
      | Fin q \<Rightarrow> Fin (min q (of_nat len)))"

definition to_length :: "jnum \<Rightarrow> nat" where
  "to_length n = (case n of Fin q \<Rightarrow> (if q \<le> 0 then 0 else nat \<lfloor>q\<rfloor>) | _ \<Rightarrow> 0)"

definition pool_width :: "jnum \<Rightarrow> nat \<Rightarrow> nat" where
  "pool_width poolSize len = to_length (js_min poolSize len)"

text \<open>
  JavaScript runs one callback at a time, and a worker gives control away only at its
  \<^verbatim>\<open>await\<close>. The callbacks of the scripts have one such point, the detail request.
  So a worker function is two synchronous parts: \<open>start\<close>, up to the request, and
  \<open>finish\<close>, from the response to the end of the callback (the \<^verbatim>\<open>catch\<close> branch
  included: these callbacks never reject). The pool's state is the shared counter
  \<open>p\<close>, the index each live worker is waiting for (\<open>flying\<close>), and the caller's
  state. Which waiting worker is resumed next is not the program's choice: it is read
  from a schedule \<open>sched\<close>, and the theorems hold for every schedule. The pool also
  records what it did, for the properties about attempts.
\<close>

datatype pool_event = Take nat | Done nat

record 's pool_state =
  counter :: nat
  flying :: "nat list"
  user :: 's
  ptrace :: "pool_event list"

type_synonym ('a, 's) worker_part = "'s \<Rightarrow> 'a \<Rightarrow> nat \<Rightarrow> 's"

text \<open>One pass of \<^verbatim>\<open>while (p < items.length) { const idx = p++; ... }\<close> up to the await.\<close>

definition take_next ::
  "'a list \<Rightarrow> ('a, 's) worker_part \<Rightarrow> 's pool_state \<Rightarrow> 's pool_state" where
  "take_next items start ps =
     (let idx = counter ps
      in ps\<lparr>counter := Suc idx,
             flying := flying ps @ [idx],
             user := start (user ps) (items ! idx) idx,
             ptrace := ptrace ps @ [Take idx]\<rparr>)"

text \<open>\<^verbatim>\<open>Array.from({ length: n }, worker)\<close>: each worker runs until its first await.\<close>

fun spawn ::
  "nat \<Rightarrow> 'a list \<Rightarrow> ('a, 's) worker_part \<Rightarrow> 's pool_state \<Rightarrow> 's pool_state" where
  "spawn 0 items start ps = ps"
| "spawn (Suc n) items start ps =
     spawn n items start
       (if counter ps < length items then take_next items start ps else ps)"

definition pick :: "nat list \<Rightarrow> nat \<Rightarrow> nat" where
  "pick sched n = (case sched of [] \<Rightarrow> 0 | c # _ \<Rightarrow> c mod n)"

text \<open>
  A response arrives for the worker at position \<open>k\<close> of \<open>flying\<close>: its callback
  finishes, and its loop either takes the next index or ends.
\<close>

definition resume ::
  "'a list \<Rightarrow> ('a, 's) worker_part \<Rightarrow> ('a, 's) worker_part \<Rightarrow> nat \<Rightarrow>
   's pool_state \<Rightarrow> 's pool_state" where
  "resume items start finish k ps =
     (let idx = flying ps ! k;
          ps1 = ps\<lparr>flying := take k (flying ps) @ drop (Suc k) (flying ps),
                   user := finish (user ps) (items ! idx) idx,
                   ptrace := ptrace ps @ [Done idx]\<rparr>
      in if counter ps1 < length items then take_next items start ps1 else ps1)"

function drain ::
  "'a list \<Rightarrow> ('a, 's) worker_part \<Rightarrow> ('a, 's) worker_part \<Rightarrow> nat list \<Rightarrow>
   's pool_state \<Rightarrow> 's pool_state" where
  "drain items start finish sched ps =
     (if flying ps = [] then ps
      else drain items start finish (tl sched)
             (resume items start finish (pick sched (length (flying ps))) ps))"
  by pat_completeness auto
termination
proof (relation "measure (\<lambda>(items, start, finish, sched, ps).
                   (length items - counter ps) + length (flying ps))")
  show "wf (measure (\<lambda>(items :: 'a list, start :: ('a, 's) worker_part,
                        finish :: ('a, 's) worker_part, sched :: nat list, ps :: 's pool_state).
                   (length items - counter ps) + length (flying ps)))"
    by simp
next
  fix items :: "'a list" and start finish :: "('a, 's) worker_part"
    and sched :: "nat list" and ps :: "'s pool_state"
  assume ne: "flying ps \<noteq> []"
  have k: "pick sched (length (flying ps)) < length (flying ps)"
    using ne by (cases sched) (simp_all add: pick_def)
  then show "((items, start, finish, tl sched,
               resume items start finish (pick sched (length (flying ps))) ps),
              (items, start, finish, sched, ps))
             \<in> measure (\<lambda>(items, start, finish, sched, ps).
                   (length items - counter ps) + length (flying ps))"
    by (auto simp: resume_def take_next_def Let_def min_def)
qed

declare drain.simps [simp del]

definition withPool ::
  "'a list \<Rightarrow> jnum \<Rightarrow> ('a, 's) worker_part \<Rightarrow> ('a, 's) worker_part \<Rightarrow> nat list \<Rightarrow>
   's \<Rightarrow> 's pool_state" where
  "withPool items poolSize start finish sched s =
     drain items start finish sched
       (spawn (pool_width poolSize (length items)) items start
          \<lparr>counter = 0, flying = [], user = s, ptrace = []\<rparr>)"

text \<open>
  Reading a pool trace: the indices taken, the indices finished, and the caller's state
  obtained by running the two parts of the callback in the order of the trace.
\<close>

fun taken :: "pool_event list \<Rightarrow> nat list" where
  "taken [] = []"
| "taken (Take i # evs) = i # taken evs"
| "taken (Done i # evs) = taken evs"

fun dones :: "pool_event list \<Rightarrow> nat list" where
  "dones [] = []"
| "dones (Take i # evs) = dones evs"
| "dones (Done i # evs) = i # dones evs"

fun replay ::
  "'a list \<Rightarrow> ('a, 's) worker_part \<Rightarrow> ('a, 's) worker_part \<Rightarrow> pool_event list \<Rightarrow> 's \<Rightarrow> 's" where
  "replay items start finish [] s = s"
| "replay items start finish (Take i # evs) s =
     replay items start finish evs (start s (items ! i) i)"
| "replay items start finish (Done i # evs) s =
     replay items start finish evs (finish s (items ! i) i)"

text \<open>
  What holds of the pool's state at every moment of a run with \<open>n\<close> workers: the
  counter never passes the list, the indices are taken in order and once, each taken
  index is either in flight or finished, the caller's state is the replay of the trace,
  and never more than \<open>n\<close> requests are in flight.
\<close>

definition pool_inv :: "'a list \<Rightarrow> ('a, 's) worker_part \<Rightarrow> ('a, 's) worker_part \<Rightarrow> nat \<Rightarrow> 's \<Rightarrow> 's pool_state \<Rightarrow> bool" where
  "pool_inv items start finish n s ps \<longleftrightarrow>
     counter ps \<le> length items \<and>
     taken (ptrace ps) = [0..<counter ps] \<and>
     mset (flying ps) + mset (dones (ptrace ps)) = mset [0..<counter ps] \<and>
     user ps = replay items start finish (ptrace ps) s \<and>
     length (flying ps) \<le> n \<and>
     (\<forall>evs. prefix evs (ptrace ps) \<longrightarrow> length (taken evs) \<le> length (dones evs) + n)"

text \<open>A callback part that only notes the item it was given, to observe a pool run.\<close>

definition collect :: "(string, string list) worker_part" where
  "collect s x i = s @ [x]"

section \<open>The fallback chain, in the words of the specification\<close>

text \<open>
  A second reading of the display name, to compare with the loops of the source: the
  name of the first entry of a locale, found with \<open>find\<close>; the chain
  es, en, the document's own name, and the listing key wherever that gives no text.
\<close>

definition localized :: "string \<Rightarrow> json list \<Rightarrow> json option" where
  "localized l ns = (case find (name_in_lang l) ns of None \<Rightarrow> None | Some n \<Rightarrow> get_prop n ''name'')"

definition names_array :: "json \<Rightarrow> json list" where
  "names_array a = (case get_prop a ''names'' of Some (JArr xs) \<Rightarrow> xs | _ \<Rightarrow> [])"

definition own_name :: "json \<Rightarrow> json option" where
  "own_name a = (case get_prop a ''name'' of Some v \<Rightarrow> if truthy v then Some v else None | None \<Rightarrow> None)"

definition text_or_key :: "(json \<Rightarrow> string) \<Rightarrow> json \<Rightarrow> json \<Rightarrow> json" where
  "text_or_key str key v = (if js_String str v = [] then key else JStr (js_String str v))"

definition fallback_chain :: "(json \<Rightarrow> string) \<Rightarrow> json \<Rightarrow> json \<Rightarrow> json" where
  "fallback_chain str a key =
     (case localized ''es'' (names_array a) of
        Some v \<Rightarrow> text_or_key str key v
      | None \<Rightarrow>
          (case localized ''en'' (names_array a) of
             Some v \<Rightarrow> text_or_key str key v
           | None \<Rightarrow>
               (case own_name a of
                  Some v \<Rightarrow> text_or_key str key v
                | None \<Rightarrow> key)))"

definition names_list :: "json \<Rightarrow> json list" where
  "names_list mv = (case get_prop mv ''names'' of Some v \<Rightarrow> elems v | None \<Rightarrow> [])"

text \<open>A fixed rendering of the values that are not strings, for the closed examples.\<close>

definition object_text :: "json \<Rightarrow> string" where
  "object_text v = ''[object Object]''"

section \<open>The world a run sees\<close>

text \<open>
  \<^verbatim>\<open>getJson(url)\<close> throws on a status that is not ok, and when the request or the
  parsing of the body fails; otherwise it returns the parsed body. The remote service
  answers each request on its own: its answer is a function of the number of the
  request within the run and of the URL, so two requests for one URL can fare
  differently. A run numbers its requests in the order it starts them: the probe is 0,
  the full listing 1, and the detail of the item at index \<open>idx\<close> of \<^verbatim>\<open>missing\<close> is
  \<open>idx + 2\<close> (the pool takes the indices in order).
\<close>

datatype response = HttpError nat | NoBody | Body json

text \<open>
  What a run does to the outside, in order: the requests it starts, the files it writes
  (\<^verbatim>\<open>writeJSON\<close> always writes a whole document) and the files it unlinks.
\<close>

datatype event =
    HttpGet string
  | FileWrite string obj
  | FileUnlink string

text \<open>
  The files under the repository root hold JSON objects (what these scripts write, so
  \<^verbatim>\<open>safeObj\<close> returns what was read); a path without a file is \<open>None\<close>. The file
  system does what it is asked: reading and writing a file succeed, and so does
  \<^verbatim>\<open>unlinkSync\<close> on a path that exists, so the \<^verbatim>\<open>catch\<close> of \<^verbatim>\<open>safeUnlink\<close>, which
  only prints a warning, has nothing to catch. \<open>today\<close> is the result of
  \<^verbatim>\<open>todayISO()\<close>, \<open>POOL\<close> the value of \<^verbatim>\<open>Number(process.env.ABILITIES_POOL || 5)\<close>
  (and of the two sibling variables), \<open>sched\<close> the order in which responses arrive.
\<close>

record world =
  files :: "string \<Rightarrow> obj option"
  http :: "nat \<Rightarrow> string \<Rightarrow> response"
  today :: string
  POOL :: jnum
  sched :: "nat list"

datatype fatal =
    NoManifest
  | NoUrl
  | NoFileName
  | NoSnapshotFile
  | ProbeFailed
  | ListingFailed

datatype outcome =
    Fatal fatal
  | NoOpProbe
  | NoOpDiff
  | Published nat nat

record result =
  outcome :: outcome
  files_after :: "string \<Rightarrow> obj option"
  trace :: "event list"

text \<open>What differs between the scripts: directory, manifest key, endpoint, file prefix, extractor.\<close>

record resource =
  dir :: string
  url_key :: string
  url_dir :: string
  endpoint :: string
  list_limit :: string
  name_prefix :: string
  extractor :: "json \<Rightarrow> json \<Rightarrow> obj option"
  to_str :: "json \<Rightarrow> string"

definition API :: string where
  "API = ''https://pokeapi.co/api/v2''"

definition ability :: "(json \<Rightarrow> string) \<Rightarrow> resource" where
  "ability str =
     \<lparr>dir = ''public/abilities'', url_key = ''ability_url'', url_dir = ''/abilities/'',
      endpoint = ''ability'', list_limit = ''100000'', name_prefix = ''ability_map.'',
      extractor = ability_record str, to_str = str\<rparr>"

definition pokemon :: "(json \<Rightarrow> string) \<Rightarrow> resource" where
  "pokemon str =
     \<lparr>dir = ''public/pokemon'', url_key = ''pokemon_url'', url_dir = ''/pokemon/'',
      endpoint = ''pokemon'', list_limit = ''100000'', name_prefix = ''pokemon_map.'',
      extractor = pokemon_record, to_str = str\<rparr>"

definition moves :: "(json \<Rightarrow> string) \<Rightarrow> resource" where
  "moves str =
     \<lparr>dir = ''public/moves'', url_key = ''moves_url'', url_dir = ''/moves/'',
      endpoint = ''move'', list_limit = ''10000'', name_prefix = ''move_es_map.'',
      extractor = moves_record, to_str = str\<rparr>"

text \<open>\<^verbatim>\<open>join(dir, name)\<close>, for a name that is one path segment.\<close>

definition join_path :: "string \<Rightarrow> string \<Rightarrow> string" where
  "join_path d f = d @ ''/'' @ f"

definition manifestPath :: "resource \<Rightarrow> string" where
  "manifestPath r = join_path (dir r) ''manifest.json''"

definition probe_url :: "resource \<Rightarrow> string" where
  "probe_url r = API @ ''/'' @ endpoint r @ ''?limit=1''"

definition list_url :: "resource \<Rightarrow> string" where
  "list_url r = API @ ''/'' @ endpoint r @ ''?limit='' @ list_limit r"

definition detail_url :: "resource \<Rightarrow> json \<Rightarrow> string" where
  "detail_url r name = API @ ''/'' @ endpoint r @ ''/'' @ js_String (to_str r) name"

text \<open>\<^verbatim>\<open>url.split("/").filter(Boolean).pop()\<close>: the last non-empty segment, if any.\<close>

fun split_slash :: "string \<Rightarrow> string list" where
  "split_slash [] = [[]]"
| "split_slash (c # cs) =
     (if c = CHR ''/'' then [] # split_slash cs
      else (case split_slash cs of [] \<Rightarrow> [[c]] | t # ts \<Rightarrow> (c # t) # ts))"

definition last_segment :: "string \<Rightarrow> string option" where
  "last_segment u =
     (case filter (\<lambda>t. t \<noteq> []) (split_slash u) of [] \<Rightarrow> None | t # ts \<Rightarrow> Some (last (t # ts)))"

text \<open>\<^verbatim>\<open>(manifest && manifest.X_url) ? String(manifest.X_url) : null\<close>\<close>

definition manifest_url :: "resource \<Rightarrow> obj \<Rightarrow> string option" where
  "manifest_url r manifest =
     (case map_of manifest (url_key r) of
        None \<Rightarrow> None
      | Some v \<Rightarrow> if truthy v then Some (js_String (to_str r) v) else None)"

text \<open>
  \<^verbatim>\<open>o.k = v\<close> for a property written by its name in the source (\<^verbatim>\<open>manifest.version\<close>,
  \<^verbatim>\<open>manifest.ability_url\<close> and its two siblings): the property keeps its place, a
  new one goes last.
\<close>

fun set_prop :: "string \<Rightarrow> json \<Rightarrow> obj \<Rightarrow> obj" where
  "set_prop k v [] = [(k, v)]"
| "set_prop k v ((k', v') # kv) =
     (if k' = k then (k, v) # kv else (k', v') # set_prop k v kv)"

text \<open>
  \<^verbatim>\<open>map[name] = {...}\<close>, where the key is computed. On the key \<^verbatim>\<open>__proto__\<close> that the
  object does not own (a parsed document can own it), the assignment reaches the
  setter of \<^verbatim>\<open>Object.prototype\<close>: it replaces the prototype of the map and adds no
  property, so \<^verbatim>\<open>JSON.stringify\<close> writes nothing for it. Every other key is an
  ordinary property.
\<close>

definition assign_entry :: "string \<Rightarrow> json \<Rightarrow> obj \<Rightarrow> obj" where
  "assign_entry k v m =
     (if k = ''__proto__'' \<and> map_of m k = None then m else set_prop k v m)"

section \<open>Diff against the known keys\<close>

text \<open>
  \<^verbatim>\<open>const name = results[i] && results[i].name ? results[i].name : null;
  if (name && !knownKeys.has(name)) missing.push(name);\<close>
  \<open>knownKeys\<close> is a set of strings, so a name of another type is never in it.
\<close>

definition entry_name :: "json \<Rightarrow> json" where
  "entry_name e =
     (case guarded_prop (Some e) ''name'' of
        Some v \<Rightarrow> if truthy v then v else JNull
      | None \<Rightarrow> JNull)"

definition has_key :: "string set \<Rightarrow> json \<Rightarrow> bool" where
  "has_key K name = (case name of JStr s \<Rightarrow> s \<in> K | _ \<Rightarrow> False)"

fun missing_loop :: "string set \<Rightarrow> json list \<Rightarrow> json list \<Rightarrow> json list" where
  "missing_loop K [] missing = missing"
| "missing_loop K (e # es) missing =
     (let name = entry_name e
      in missing_loop K es (if truthy name \<and> \<not> has_key K name then missing @ [name] else missing))"

text \<open>\<^verbatim>\<open>const results = (list && list.results) ? list.results : [];\<close> and the loop.\<close>

definition results_of :: "json \<Rightarrow> json list" where
  "results_of lst =
     (case guarded_prop (Some lst) ''results'' of
        Some v \<Rightarrow> if truthy v then elems v else []
      | None \<Rightarrow> [])"

definition compute_missing :: "string set \<Rightarrow> json \<Rightarrow> json list" where
  "compute_missing K lst = missing_loop K (results_of lst) []"

section \<open>Fetching the missing entries\<close>

text \<open>
  The callback given to \<^verbatim>\<open>withPool\<close>, in its two parts. It starts the detail request
  of its item, which is request \<open>idx + 2\<close> of the run; on the response to that request
  it either stores the extracted record with \<^verbatim>\<open>map[name] = {...}\<close> and counts it in
  \<^verbatim>\<open>added\<close>, or, when \<^verbatim>\<open>getJson\<close> or the extraction threw, lands in \<^verbatim>\<open>catch\<close>,
  which changes nothing but \<^verbatim>\<open>failed\<close>. (The moves script logs such a failure
  without a counter; \<open>failed\<close> is kept for it all the same.)
\<close>

record run_state =
  snapshot :: obj
  added :: nat
  failed :: nat
  events :: "event list"

definition worker_start :: "resource \<Rightarrow> (json, run_state) worker_part" where
  "worker_start r st name idx = st\<lparr>events := events st @ [HttpGet (detail_url r name)]\<rparr>"

definition worker_finish :: "resource \<Rightarrow> world \<Rightarrow> (json, run_state) worker_part" where
  "worker_finish r w st name idx =
     (case http w (idx + 2) (detail_url r name) of
        Body a \<Rightarrow>
          (case extractor r a name of
             Some rec \<Rightarrow>
               st\<lparr>snapshot := assign_entry (js_String (to_str r) name) (JObj rec) (snapshot st),
                    added := Suc (added st)\<rparr>
           | None \<Rightarrow> st\<lparr>failed := Suc (failed st)\<rparr>)
      | _ \<Rightarrow> st\<lparr>failed := Suc (failed st)\<rparr>)"

definition fetch_missing :: "resource \<Rightarrow> world \<Rightarrow> json list \<Rightarrow> run_state \<Rightarrow> run_state" where
  "fetch_missing r w missing st =
     user (withPool missing (POOL w) (worker_start r) (worker_finish r w) (sched w) st)"

section \<open>Publishing and retiring\<close>

definition newFileName :: "resource \<Rightarrow> world \<Rightarrow> string" where
  "newFileName r w = name_prefix r @ today w @ ''.json''"

definition newMapPath :: "resource \<Rightarrow> world \<Rightarrow> string" where
  "newMapPath r w = join_path (dir r) (newFileName r w)"

text \<open>
  \<^verbatim>\<open>manifest.version = version; manifest.X_url = `/dir/${newFileName}`;\<close>
\<close>

definition new_manifest :: "resource \<Rightarrow> world \<Rightarrow> obj \<Rightarrow> obj" where
  "new_manifest r w manifest =
     set_prop (url_key r) (JStr (url_dir r @ newFileName r w))
       (set_prop ''version'' (JStr (today w)) manifest)"

text \<open>
  Steps 4 and 5 of \<^verbatim>\<open>main\<close>: \<^verbatim>\<open>writeJSON(newMapPath, map)\<close>, then
  \<^verbatim>\<open>writeJSON(manifestPath, manifest)\<close>. The state is the files and the trace.
\<close>

type_synonym disk = "(string \<Rightarrow> obj option) \<times> event list"

definition writeJSON :: "string \<Rightarrow> obj \<Rightarrow> disk \<Rightarrow> disk" where
  "writeJSON p doc d = ((fst d)(p := Some doc), snd d @ [FileWrite p doc])"

definition publish :: "resource \<Rightarrow> world \<Rightarrow> obj \<Rightarrow> obj \<Rightarrow> disk \<Rightarrow> disk" where
  "publish r w manifest m d =
     writeJSON (manifestPath r) (new_manifest r w manifest)
       (writeJSON (newMapPath r w) m d)"

text \<open>
  \<^verbatim>\<open>safeUnlink\<close> of the ability and pokemon scripts:
  \<^verbatim>\<open>try { if (filePath && existsSync(filePath)) unlinkSync(filePath); } catch(e) { console.warn(...) }\<close>
  and of the moves script, which omits the first test.
\<close>

definition unlinkSync :: "string \<Rightarrow> disk \<Rightarrow> disk" where
  "unlinkSync p d = ((fst d)(p := None), snd d @ [FileUnlink p])"

definition safeUnlink :: "string option \<Rightarrow> disk \<Rightarrow> disk" where
  "safeUnlink filePath d =
     (case filePath of
        None \<Rightarrow> d
      | Some p \<Rightarrow> if p \<noteq> [] \<and> fst d p \<noteq> None then unlinkSync p d else d)"

definition safeUnlink_moves :: "string \<Rightarrow> disk \<Rightarrow> disk" where
  "safeUnlink_moves p d = (if fst d p \<noteq> None then unlinkSync p d else d)"

text \<open>
  Step 6, ability and pokemon:
  \<^verbatim>\<open>if (oldFileName && oldFileName !== newFileName) safeUnlink(oldMapPath);\<close>
  and moves: \<^verbatim>\<open>if (oldFileName !== newFileName) safeUnlink(oldMapPath);\<close>
\<close>

definition retire :: "resource \<Rightarrow> world \<Rightarrow> string option \<Rightarrow> string option \<Rightarrow> disk \<Rightarrow> disk" where
  "retire r w oldFileName oldMapPath d =
     (case oldFileName of
        None \<Rightarrow> d
      | Some f \<Rightarrow> if f \<noteq> [] \<and> f \<noteq> newFileName r w then safeUnlink oldMapPath d else d)"

definition retire_moves :: "resource \<Rightarrow> world \<Rightarrow> string \<Rightarrow> string \<Rightarrow> disk \<Rightarrow> disk" where
  "retire_moves r w oldFileName oldMapPath d =
     (if oldFileName \<noteq> newFileName r w then safeUnlink_moves oldMapPath d else d)"

definition finished :: "outcome \<Rightarrow> disk \<Rightarrow> result" where
  "finished out d = \<lparr>outcome = out, files_after = fst d, trace = snd d\<rparr>"

section \<open>The three main functions\<close>

text \<open>
  Loading, ability and pokemon (the BOOTSTRAP block): with no usable URL in the
  manifest, no file name in it, or no file at that name, the map stays \<^verbatim>\<open>{}\<close>.
  The result is \<^verbatim>\<open>oldFileName\<close>, \<^verbatim>\<open>oldMapPath\<close> and \<^verbatim>\<open>map\<close>;
  \<^verbatim>\<open>knownKeys\<close> is the set of the map's keys.
\<close>

definition load_state ::
  "resource \<Rightarrow> (string \<Rightarrow> obj option) \<Rightarrow> obj \<Rightarrow> string option \<times> string option \<times> obj" where
  "load_state r fs manifest =
     (case manifest_url r manifest of
        None \<Rightarrow> (None, None, [])
      | Some u \<Rightarrow>
          if u = [] then (None, None, [])
          else (case last_segment u of
                  None \<Rightarrow> (None, None, [])
                | Some f \<Rightarrow>
                    (case fs (join_path (dir r) f) of
                       None \<Rightarrow> (Some f, Some (join_path (dir r) f), [])
                     | Some m \<Rightarrow> (Some f, Some (join_path (dir r) f), m))))"

definition knownKeys :: "obj \<Rightarrow> string set" where
  "knownKeys m = set (map fst m)"

text \<open>\<^verbatim>\<open>apiCount !== null && apiCount <= localCount\<close>\<close>

definition count_not_grown :: "rat option \<Rightarrow> nat \<Rightarrow> bool" where
  "count_not_grown apiCount localCount =
     (case apiCount of None \<Rightarrow> False | Some c \<Rightarrow> c \<le> of_nat localCount)"

text \<open>
  From the full listing to the end of \<^verbatim>\<open>main\<close>; the same text in the three scripts
  but for the retiring step, which is the parameter \<open>ret\<close>.
\<close>

definition from_listing ::
  "resource \<Rightarrow> world \<Rightarrow> obj \<Rightarrow> obj \<Rightarrow> (disk \<Rightarrow> disk) \<Rightarrow> disk \<Rightarrow> result" where
  "from_listing r w manifest m ret d =
     (let d1 = (fst d, snd d @ [HttpGet (list_url r)])
      in case http w 1 (list_url r) of
           Body lst \<Rightarrow>
             (let missing = compute_missing (knownKeys m) lst
              in if missing = [] then finished NoOpDiff d1
                 else (let st = fetch_missing r w missing
                                  \<lparr>snapshot = m, added = 0, failed = 0, events = snd d1\<rparr>;
                           d2 = publish r w manifest (snapshot st) (fst d1, events st)
                       in finished (Published (added st) (failed st)) (ret d2)))
         | _ \<Rightarrow> finished (Fatal ListingFailed) d1)"

text \<open>\<^verbatim>\<open>main\<close> of \<^verbatim>\<open>update_ability_map.js\<close> and \<^verbatim>\<open>update_pokemon_map.js\<close>.\<close>

definition main_boot :: "resource \<Rightarrow> world \<Rightarrow> result" where
  "main_boot r w =
     (case files w (manifestPath r) of
        None \<Rightarrow> finished (Fatal NoManifest) (files w, [])
      | Some manifest \<Rightarrow>
          (case load_state r (files w) manifest of
             (oldFileName, oldMapPath, m) \<Rightarrow>
               (let d = (files w, [HttpGet (probe_url r)])
                in case http w 0 (probe_url r) of
                     Body head \<Rightarrow>
                       (let apiCount = getCountFromListResponse head;
                            localCount = card (knownKeys m);
                            isBootstrap = (localCount = 0)
                        in if \<not> isBootstrap \<and> count_not_grown apiCount localCount
                           then finished NoOpProbe d
                           else from_listing r w manifest m
                                  (retire r w oldFileName oldMapPath) d)
                   | _ \<Rightarrow> finished (Fatal ProbeFailed) d)))"

text \<open>
  \<^verbatim>\<open>main\<close> of \<^verbatim>\<open>update_moves_es_map.js\<close>: a missing URL, file name or snapshot file
  is a thrown error, and the count test has no bootstrap exemption.
\<close>

definition main_moves :: "resource \<Rightarrow> world \<Rightarrow> result" where
  "main_moves r w =
     (case files w (manifestPath r) of
        None \<Rightarrow> finished (Fatal NoManifest) (files w, [])
      | Some manifest \<Rightarrow>
          (case manifest_url r manifest of
             None \<Rightarrow> finished (Fatal NoUrl) (files w, [])
           | Some u \<Rightarrow>
               if u = [] then finished (Fatal NoUrl) (files w, [])
               else (case last_segment u of
                       None \<Rightarrow> finished (Fatal NoFileName) (files w, [])
                     | Some oldFileName \<Rightarrow>
                         (let oldMapPath = join_path (dir r) oldFileName
                          in case files w oldMapPath of
                               None \<Rightarrow> finished (Fatal NoSnapshotFile) (files w, [])
                             | Some esMap \<Rightarrow>
                                 (let d = (files w, [HttpGet (probe_url r)])
                                  in case http w 0 (probe_url r) of
                                       Body head \<Rightarrow>
                                         (let apiCount = getCountFromListResponse head;
                                              localCount = card (knownKeys esMap)
                                          in if count_not_grown apiCount localCount
                                             then finished NoOpProbe d
                                             else from_listing r w manifest esMap
                                                    (retire_moves r w oldFileName oldMapPath) d)
                                     | _ \<Rightarrow> finished (Fatal ProbeFailed) d)))))"

definition update_ability_map :: "(json \<Rightarrow> string) \<Rightarrow> world \<Rightarrow> result" where
  "update_ability_map str w = main_boot (ability str) w"

definition update_pokemon_map :: "(json \<Rightarrow> string) \<Rightarrow> world \<Rightarrow> result" where
  "update_pokemon_map str w = main_boot (pokemon str) w"

definition update_moves_es_map :: "(json \<Rightarrow> string) \<Rightarrow> world \<Rightarrow> result" where
  "update_moves_es_map str w = main_moves (moves str) w"

section \<open>Observing a run\<close>

text \<open>
  The values a run computes on its way, named after the variables of \<^verbatim>\<open>main\<close>, so that
  the properties can speak of them: the manifest read, the old file name, the prior
  snapshot, the missing list, and the state after the pool.
\<close>

definition manifest_of :: "resource \<Rightarrow> world \<Rightarrow> obj" where
  "manifest_of r w = (case files w (manifestPath r) of None \<Rightarrow> [] | Some manifest \<Rightarrow> manifest)"

definition old_name_boot :: "resource \<Rightarrow> world \<Rightarrow> string option" where
  "old_name_boot r w = fst (load_state r (files w) (manifest_of r w))"

definition old_path_boot :: "resource \<Rightarrow> world \<Rightarrow> string option" where
  "old_path_boot r w = fst (snd (load_state r (files w) (manifest_of r w)))"

definition prior_boot :: "resource \<Rightarrow> world \<Rightarrow> obj" where
  "prior_boot r w = snd (snd (load_state r (files w) (manifest_of r w)))"

text \<open>
  In the moves script the old file name and the prior snapshot exist only when nothing
  was thrown while loading.
\<close>

definition old_name_moves :: "resource \<Rightarrow> world \<Rightarrow> string option" where
  "old_name_moves r w =
     (case manifest_url r (manifest_of r w) of
        None \<Rightarrow> None
      | Some u \<Rightarrow> if u = [] then None else last_segment u)"

definition prior_moves :: "resource \<Rightarrow> world \<Rightarrow> obj option" where
  "prior_moves r w =
     (case old_name_moves r w of
        None \<Rightarrow> None
      | Some f \<Rightarrow> files w (join_path (dir r) f))"

definition missing_of :: "resource \<Rightarrow> world \<Rightarrow> obj \<Rightarrow> json list" where
  "missing_of r w m =
     (case http w 1 (list_url r) of Body lst \<Rightarrow> compute_missing (knownKeys m) lst | _ \<Rightarrow> [])"

definition fetch_state :: "resource \<Rightarrow> world \<Rightarrow> obj \<Rightarrow> run_state" where
  "fetch_state r w m =
     fetch_missing r w (missing_of r w m)
       \<lparr>snapshot = m, added = 0, failed = 0,
        events = [HttpGet (probe_url r), HttpGet (list_url r)]\<rparr>"

text \<open>
  What the fetch of the item at index \<open>idx\<close> yields: the extracted record, or nothing
  when the request or the extraction failed. And the key its record is stored under.
\<close>

definition fetched :: "resource \<Rightarrow> world \<Rightarrow> nat \<Rightarrow> json \<Rightarrow> obj option" where
  "fetched r w idx name =
     (case http w (idx + 2) (detail_url r name) of Body a \<Rightarrow> extractor r a name | _ \<Rightarrow> None)"

definition entry_key :: "resource \<Rightarrow> json \<Rightarrow> string" where
  "entry_key r name = js_String (to_str r) name"

text \<open>The files after a sequence of events, to speak of the disk at a moment of the trace.\<close>

fun run_events :: "(string \<Rightarrow> obj option) \<Rightarrow> event list \<Rightarrow> (string \<Rightarrow> obj option)" where
  "run_events fs [] = fs"
| "run_events fs (HttpGet u # evs) = run_events fs evs"
| "run_events fs (FileWrite p doc # evs) = run_events (fs(p := Some doc)) evs"
| "run_events fs (FileUnlink p # evs) = run_events (fs(p := None)) evs"

fun is_request :: "event \<Rightarrow> bool" where
  "is_request (HttpGet u) = True"
| "is_request _ = False"

fun is_unlink :: "event \<Rightarrow> bool" where
  "is_unlink (FileUnlink p) = True"
| "is_unlink _ = False"

text \<open>
  A run of one of the scripts, with its old file name and its prior snapshot: either
  the \<^verbatim>\<open>main\<close> with the bootstrap block or the one of the moves script.
\<close>

definition is_run :: "resource \<Rightarrow> world \<Rightarrow> result \<Rightarrow> string option \<Rightarrow> obj \<Rightarrow> bool" where
  "is_run r w res old m \<longleftrightarrow>
     (res = main_boot r w \<and> old = old_name_boot r w \<and> m = prior_boot r w) \<or>
     (res = main_moves r w \<and> old = old_name_moves r w \<and> prior_moves r w = Some m)"

text \<open>The answer to the probe request: the extracted count, or nothing when the request failed.\<close>

definition probe_count :: "resource \<Rightarrow> world \<Rightarrow> rat option option" where
  "probe_count r w =
     (case http w 0 (probe_url r) of Body head \<Rightarrow> Some (getCountFromListResponse head) | _ \<Rightarrow> None)"

text \<open>The disk after the two writes of a publishing run, and what the retiring step then does.\<close>

definition post_publish :: "resource \<Rightarrow> world \<Rightarrow> obj \<Rightarrow> (string \<Rightarrow> obj option)" where
  "post_publish r w m =
     (files w)(newMapPath r w := Some (snapshot (fetch_state r w m)),
               manifestPath r := Some (new_manifest r w (manifest_of r w)))"

definition retire_events :: "resource \<Rightarrow> world \<Rightarrow> string option \<Rightarrow> obj \<Rightarrow> event list" where
  "retire_events r w old m =
     (case old of
        None \<Rightarrow> []
      | Some f \<Rightarrow>
          if f \<noteq> newFileName r w \<and> post_publish r w m (join_path (dir r) f) \<noteq> None
          then [FileUnlink (join_path (dir r) f)] else [])"

text \<open>
  A run that got past the probe: the manifest was read, the probe request was answered,
  and the count test of the script did not stop the run.
\<close>

definition past_probe :: "resource \<Rightarrow> world \<Rightarrow> result \<Rightarrow> string option \<Rightarrow> obj \<Rightarrow> bool" where
  "past_probe r w res old m \<longleftrightarrow>
     files w (manifestPath r) \<noteq> None \<and>
     (case probe_count r w of
        None \<Rightarrow> False
      | Some c \<Rightarrow>
          (res = main_boot r w \<and> old = old_name_boot r w \<and> m = prior_boot r w
             \<and> \<not> (card (knownKeys m) \<noteq> 0 \<and> count_not_grown c (card (knownKeys m))))
          \<or> (res = main_moves r w \<and> old = old_name_moves r w \<and> prior_moves r w = Some m
             \<and> \<not> count_not_grown c (card (knownKeys m))))"

text \<open>The documents a trace writes, in order.\<close>

fun writes :: "event list \<Rightarrow> (string \<times> obj) list" where
  "writes [] = []"
| "writes (FileWrite p doc # evs) = (p, doc) # writes evs"
| "writes (e # evs) = writes evs"

section \<open>A concrete world\<close>

text \<open>
  The scenario of the specification: the prior snapshot \<^verbatim>\<open>{"a":{"id":1}}\<close> published on
  2026-02-20, the remote listing \<^verbatim>\<open>[{name:"a"},{name:"b"}]\<close> with count 2, the detail
  of \<^verbatim>\<open>b\<close> with id 2 and a Spanish name, and a run on 2026-02-21.
\<close>

definition scenario_files :: "string \<Rightarrow> obj option" where
  "scenario_files =
     (\<lambda>p. None)
       (''public/abilities/manifest.json'' :=
          Some [(''version'', JStr ''2026-02-20''),
                (''ability_url'', JStr ''/abilities/ability_map.2026-02-20.json'')],
        ''public/abilities/ability_map.2026-02-20.json'' :=
          Some [(''a'', JObj [(''id'', JNum (Fin 1))])])"

definition detail_b :: json where
  "detail_b =
     JObj [(''id'', JNum (Fin 2)), (''name'', JStr ''b''),
           (''names'', JArr [JObj [(''name'', JStr ''Be''),
                                  (''language'', JObj [(''name'', JStr ''es'')])]])]"

definition scenario_urls :: "string \<Rightarrow> response" where
  "scenario_urls =
     (\<lambda>u. HttpError 404)
       (''https://pokeapi.co/api/v2/ability?limit=1'' := Body (JObj [(''count'', JNum (Fin 2))]),
        ''https://pokeapi.co/api/v2/ability?limit=100000'' :=
          Body (JObj [(''count'', JNum (Fin 2)),
                      (''results'', JArr [JObj [(''name'', JStr ''a'')],
                                          JObj [(''name'', JStr ''b'')]])]),
        ''https://pokeapi.co/api/v2/ability/b'' := Body detail_b)"

definition scenario_http :: "nat \<Rightarrow> string \<Rightarrow> response" where
  "scenario_http n = scenario_urls"

definition scenario :: world where
  "scenario =
     \<lparr>files = scenario_files, http = scenario_http, today = ''2026-02-21'',
      POOL = Fin 5, sched = []\<rparr>"

text \<open>The same world with a second run on the day of the prior snapshot.\<close>

definition scenario_same_day :: world where
  "scenario_same_day = scenario\<lparr>today := ''2026-02-20''\<rparr>"

text \<open>The same world with the pool size variable set to \<^verbatim>\<open>0\<close>.\<close>

definition scenario_pool0 :: world where
  "scenario_pool0 = scenario\<lparr>POOL := Fin 0\<rparr>"

text \<open>
  A first run: both manifests are there with a null URL, and no snapshot file exists.
\<close>

definition scenario_bootstrap :: world where
  "scenario_bootstrap =
     scenario\<lparr>files :=
       (\<lambda>p. None)
         (''public/abilities/manifest.json'' :=
            Some [(''version'', JNull), (''ability_url'', JNull)],
          ''public/moves/manifest.json'' :=
            Some [(''version'', JNull), (''moves_url'', JNull)])\<rparr>"

text \<open>
  The moves directory with an empty snapshot \<^verbatim>\<open>{}\<close>, and a catalog that reports count 0.
\<close>

definition scenario_moves_empty :: world where
  "scenario_moves_empty =
     \<lparr>files =
        (\<lambda>p. None)
          (''public/moves/manifest.json'' :=
             Some [(''version'', JStr ''2026-02-20''),
                   (''moves_url'', JStr ''/moves/move_es_map.2026-02-20.json'')],
           ''public/moves/move_es_map.2026-02-20.json'' := Some []),
      http =
        (\<lambda>n. (\<lambda>u. HttpError 404)
          (''https://pokeapi.co/api/v2/move?limit=1'' := Body (JObj [(''count'', JNum (Fin 0))]))),
      today = ''2026-02-21'', POOL = Fin 5, sched = []\<rparr>"

text \<open>The world of the scenario with a catalog that has not grown: count 1.\<close>

definition scenario_no_growth :: world where
  "scenario_no_growth =
     scenario\<lparr>http :=
       (\<lambda>n. scenario_urls
         (''https://pokeapi.co/api/v2/ability?limit=1'' := Body (JObj [(''count'', JNum (Fin 1))])))\<rparr>"

text \<open>
  The world of the scenario with a third entry \<^verbatim>\<open>c\<close> in the listing whose detail
  request fails, and the world with \<^verbatim>\<open>b\<close> listed twice, where the first of its two
  detail requests fails and the second succeeds.
\<close>

definition scenario_partial :: world where
  "scenario_partial =
     scenario\<lparr>http :=
       (\<lambda>n. scenario_urls
         (''https://pokeapi.co/api/v2/ability?limit=1'' := Body (JObj [(''count'', JNum (Fin 3))]),
          ''https://pokeapi.co/api/v2/ability?limit=100000'' :=
            Body (JObj [(''count'', JNum (Fin 3)),
                        (''results'', JArr [JObj [(''name'', JStr ''a'')],
                                            JObj [(''name'', JStr ''b'')],
                                            JObj [(''name'', JStr ''c'')]])])))\<rparr>"

definition scenario_twice :: world where
  "scenario_twice =
     scenario\<lparr>http :=
       (\<lambda>n. if n = 2 then (\<lambda>u. HttpError 500)
            else scenario_urls
              (''https://pokeapi.co/api/v2/ability?limit=100000'' :=
                 Body (JObj [(''count'', JNum (Fin 2)),
                             (''results'', JArr [JObj [(''name'', JStr ''a'')],
                                                 JObj [(''name'', JStr ''b'')],
                                                 JObj [(''name'', JStr ''b'')]])])))\<rparr>"

section \<open>Verified properties\<close>

subsection \<open>The pool keeps its invariant\<close>

lemma taken_append [simp]: "taken (xs @ ys) = taken xs @ taken ys"
  by (induction xs rule: taken.induct) auto

lemma dones_append [simp]: "dones (xs @ ys) = dones xs @ dones ys"
  by (induction xs rule: dones.induct) auto

lemma replay_append [simp]:
  "replay items start finish (xs @ ys) s = replay items start finish ys (replay items start finish xs s)"
  by (induction xs arbitrary: s rule: taken.induct) auto

lemma inv_sizes:
  assumes "pool_inv items start finish n s ps"
  shows "length (flying ps) + length (dones (ptrace ps)) = counter ps"
proof -
  have "size (mset (flying ps) + mset (dones (ptrace ps))) = size (mset [0..<counter ps])"
    using assms by (simp only: pool_inv_def)
  then show ?thesis by simp
qed

lemma inv_take_next:
  assumes inv: "pool_inv items start finish n s ps"
    and lt: "counter ps < length items" and room: "length (flying ps) < n"
  shows "pool_inv items start finish n s (take_next items start ps)"
proof -
  have sz: "length (flying ps) + length (dones (ptrace ps)) = counter ps"
    using inv by (rule inv_sizes)
  have pre: "\<forall>evs. prefix evs (ptrace ps) \<longrightarrow> length (taken evs) \<le> length (dones evs) + n"
    using inv by (simp add: pool_inv_def)
  have tk: "taken (ptrace ps) = [0..<counter ps]" using inv by (simp add: pool_inv_def)
  have new: "length (taken (ptrace ps @ [Take (counter ps)])) \<le> length (dones (ptrace ps @ [Take (counter ps)])) + n"
    using sz room tk by simp
  have pre': "\<forall>evs. prefix evs (ptrace ps @ [Take (counter ps)]) \<longrightarrow> length (taken evs) \<le> length (dones evs) + n"
    using pre new by (auto simp: prefix_snoc)
  show ?thesis
    using inv lt room pre' unfolding pool_inv_def take_next_def Let_def
    by simp
qed

lemma inv_spawn:
  assumes "pool_inv items start finish n s ps" "length (flying ps) + k \<le> n"
  shows "pool_inv items start finish n s (spawn k items start ps)"
  using assms
proof (induction k arbitrary: ps)
  case 0
  then show ?case by simp
next
  case (Suc k)
  show ?case
  proof (cases "counter ps < length items")
    case True
    have "pool_inv items start finish n s (take_next items start ps)"
      using Suc.prems True by (intro inv_take_next) auto
    moreover have "length (flying (take_next items start ps)) + k \<le> n"
      using Suc.prems by (simp add: take_next_def Let_def)
    ultimately show ?thesis using True Suc.IH by simp
  next
    case False
    then show ?thesis using Suc by simp
  qed
qed

lemma inv_resume:
  assumes inv: "pool_inv items start finish n s ps" and k: "k < length (flying ps)"
  shows "pool_inv items start finish n s (resume items start finish k ps)"
proof -
  let ?idx = "flying ps ! k"
  let ?ps1 = "ps\<lparr>flying := take k (flying ps) @ drop (Suc k) (flying ps),
                   user := finish (user ps) (items ! ?idx) ?idx,
                   ptrace := ptrace ps @ [Done ?idx]\<rparr>"
  have split: "flying ps = take k (flying ps) @ ?idx # drop (Suc k) (flying ps)"
    using k by (rule id_take_nth_drop)
  have ms: "mset (flying ps) = add_mset ?idx (mset (take k (flying ps) @ drop (Suc k) (flying ps)))"
    by (subst split) simp
  have len: "Suc (length (take k (flying ps) @ drop (Suc k) (flying ps))) = length (flying ps)"
    using k by simp
  have pre: "\<forall>evs. prefix evs (ptrace ps) \<longrightarrow> length (taken evs) \<le> length (dones evs) + n"
    using inv by (simp add: pool_inv_def)
  have whole: "length (taken (ptrace ps)) \<le> length (dones (ptrace ps)) + n"
    using pre by blast
  have pre': "\<forall>evs. prefix evs (ptrace ps @ [Done ?idx]) \<longrightarrow> length (taken evs) \<le> length (dones evs) + n"
    using pre whole by (auto simp: prefix_snoc)
  have inv1: "pool_inv items start finish n s ?ps1"
    using inv ms len pre' unfolding pool_inv_def by auto
  have room: "length (flying ?ps1) < n"
    using inv len k unfolding pool_inv_def by simp
  show ?thesis
  proof (cases "counter ps < length items")
    case True
    then have "resume items start finish k ps = take_next items start ?ps1"
      by (simp add: resume_def Let_def)
    moreover have "pool_inv items start finish n s (take_next items start ?ps1)"
      using inv1 room True by (intro inv_take_next) simp_all
    ultimately show ?thesis by simp
  next
    case False
    then have "resume items start finish k ps = ?ps1"
      by (simp add: resume_def Let_def)
    then show ?thesis using inv1 by simp
  qed
qed

lemma pick_less: "0 < n \<Longrightarrow> pick sc n < n"
  by (cases sc) (simp_all add: pick_def)

lemma resume_flying_empty:
  assumes "counter ps \<le> length items" "flying (resume items start finish k ps) = []"
  shows "counter (resume items start finish k ps) = length items"
  using assms by (auto simp: resume_def take_next_def Let_def split: if_splits)

lemma inv_drain:
  assumes "pool_inv items start finish n s ps"
  shows "pool_inv items start finish n s (drain items start finish sc ps)
         \<and> flying (drain items start finish sc ps) = []
         \<and> (flying ps \<noteq> [] \<longrightarrow> counter (drain items start finish sc ps) = length items)"
  using assms
proof (induction items start finish sc ps rule: drain.induct)
  case (1 items start finish sc ps)
  show ?case
  proof (cases "flying ps = []")
    case True
    then have "drain items start finish sc ps = ps"
      by (subst drain.simps) simp
    then show ?thesis using "1.prems" True by simp
  next
    case False
    let ?k = "pick sc (length (flying ps))"
    let ?ps' = "resume items start finish ?k ps"
    have k: "?k < length (flying ps)" using False by (simp add: pick_less)
    have inv': "pool_inv items start finish n s ?ps'"
      using "1.prems" k by (rule inv_resume)
    have IH: "pool_inv items start finish n s (drain items start finish (tl sc) ?ps')
         \<and> flying (drain items start finish (tl sc) ?ps') = []
         \<and> (flying ?ps' \<noteq> [] \<longrightarrow> counter (drain items start finish (tl sc) ?ps') = length items)"
      using "1.IH" [OF False inv'] .
    have unf: "drain items start finish sc ps = drain items start finish (tl sc) ?ps'"
      using False by (subst drain.simps) simp
    have cnt: "counter (drain items start finish (tl sc) ?ps') = length items"
    proof (cases "flying ?ps' = []")
      case True
      have "counter ?ps' = length items"
        using "1.prems" True by (intro resume_flying_empty) (simp_all add: pool_inv_def)
      moreover have "drain items start finish (tl sc) ?ps' = ?ps'"
        using True by (subst drain.simps) simp
      ultimately show ?thesis by simp
    next
      case False
      then show ?thesis using IH by simp
    qed
    show ?thesis unfolding unf using IH cnt by blast
  qed
qed

lemma pool_width_le: "pool_width a len \<le> len"
proof (cases a)
  case (Fin q)
  show ?thesis
  proof -
    have "\<lfloor>min q (of_nat len)\<rfloor> \<le> int len"
      by (simp add: floor_le_iff min_def)
    then have "nat \<lfloor>min q (of_nat len)\<rfloor> \<le> len" by linarith
    then show ?thesis using Fin
      by (simp add: pool_width_def js_min_def to_length_def)
  qed
qed (simp_all add: pool_width_def js_min_def to_length_def)

lemma pool_width_pos_iff:
  "1 \<le> pool_width a len \<longleftrightarrow> 1 \<le> len \<and> (a = PosInf \<or> (\<exists>q. a = Fin q \<and> 1 \<le> q))"
proof (cases a)
  case (Fin q)
  have "1 \<le> nat \<lfloor>min q (of_nat len)\<rfloor> \<longleftrightarrow> 1 \<le> q \<and> 1 \<le> len"
  proof -
    have "1 \<le> nat \<lfloor>min q (of_nat len)\<rfloor> \<longleftrightarrow> (1::int) \<le> \<lfloor>min q (of_nat len)\<rfloor>" by linarith
    also have "\<dots> \<longleftrightarrow> 1 \<le> min q (of_nat len)" by (simp add: le_floor_iff)
    also have "\<dots> \<longleftrightarrow> 1 \<le> q \<and> 1 \<le> len" by (auto simp: min_def)
    finally show ?thesis .
  qed
  then show ?thesis using Fin
    by (auto simp: pool_width_def js_min_def to_length_def min_def)
qed (auto simp: pool_width_def js_min_def to_length_def)

lemma pool_width_le_size:
  assumes "0 \<le> q"
  shows "of_nat (pool_width (Fin q) len) \<le> q"
proof (cases "min q (of_nat len) \<le> 0")
  case True
  then show ?thesis using assms by (simp add: pool_width_def js_min_def to_length_def)
next
  case False
  then have pos: "0 \<le> \<lfloor>min q (of_nat len)\<rfloor>" by simp
  have "of_nat (nat \<lfloor>min q (of_nat len)\<rfloor>) = (of_int \<lfloor>min q (of_nat len)\<rfloor> :: rat)"
    using pos by simp
  also have "\<dots> \<le> min q (of_nat len)" by (rule of_int_floor_le)
  also have "\<dots> \<le> q" by simp
  finally show ?thesis using False by (simp add: pool_width_def js_min_def to_length_def)
qed

lemma inv_init: "pool_inv items start finish n s \<lparr>counter = 0, flying = [], user = s, ptrace = []\<rparr>"
  by (simp add: pool_inv_def)

lemma spawn_flying:
  "counter ps + k \<le> length items \<Longrightarrow> length (flying (spawn k items start ps)) = length (flying ps) + k"
  by (induction k arbitrary: ps) (auto simp: take_next_def Let_def)

lemma drain_empty: "flying ps = [] \<Longrightarrow> drain items start finish sc ps = ps"
  by (subst drain.simps) simp

lemma withPool_idle:
  assumes "pool_width poolSize (length items) = 0"
  shows "withPool items poolSize start finish sc s = \<lparr>counter = 0, flying = [], user = s, ptrace = []\<rparr>"
  using assms by (simp add: withPool_def drain_empty)

lemma withPool_inv:
  "pool_inv items start finish (pool_width poolSize (length items)) s (withPool items poolSize start finish sc s)
   \<and> flying (withPool items poolSize start finish sc s) = []"
proof -
  let ?n = "pool_width poolSize (length items)"
  let ?ps0 = "\<lparr>counter = 0, flying = [], user = s, ptrace = []\<rparr>"
  have "pool_inv items start finish ?n s (spawn ?n items start ?ps0)"
    by (rule inv_spawn) (simp_all add: inv_init)
  from inv_drain [OF this, of sc] show ?thesis unfolding withPool_def by simp
qed

lemma withPool_all:
  assumes "1 \<le> pool_width poolSize (length items)"
  shows "counter (withPool items poolSize start finish sc s) = length items"
proof -
  let ?n = "pool_width poolSize (length items)"
  let ?ps0 = "\<lparr>counter = 0, flying = [], user = s, ptrace = []\<rparr>"
  have inv: "pool_inv items start finish ?n s (spawn ?n items start ?ps0)"
    by (rule inv_spawn) (simp_all add: inv_init)
  have "length (flying (spawn ?n items start ?ps0)) = length (flying ?ps0) + ?n"
    by (rule spawn_flying) (simp add: pool_width_le)
  then have "flying (spawn ?n items start ?ps0) \<noteq> []" using assms by auto
  with inv_drain [OF inv, of sc] show ?thesis unfolding withPool_def by simp
qed

text \<open>Each worker takes its first item before any response arrives.\<close>

lemma spawn_trace:
  "counter ps + k \<le> length items \<Longrightarrow>
     ptrace (spawn k items start ps) = ptrace ps @ map Take [counter ps..<counter ps + k]
     \<and> counter (spawn k items start ps) = counter ps + k"
proof (induction k arbitrary: ps)
  case 0
  then show ?case by simp
next
  case (Suc k)
  let ?ps' = "take_next items start ps"
  have lt: "counter ps < length items" using Suc.prems by simp
  have c: "counter ?ps' = Suc (counter ps)" and t: "ptrace ?ps' = ptrace ps @ [Take (counter ps)]"
    by (simp_all add: take_next_def Let_def)
  have "counter ?ps' + k \<le> length items" using Suc.prems c by simp
  from Suc.IH [OF this] have
    "ptrace (spawn k items start ?ps') = ptrace ?ps' @ map Take [counter ?ps'..<counter ?ps' + k]"
    and "counter (spawn k items start ?ps') = counter ?ps' + k"
    by simp_all
  then show ?case using lt c t by (simp add: upt_conv_Cons)
qed

lemma resume_extends: "\<exists>evs. ptrace (resume items start finish k ps) = ptrace ps @ evs"
  by (simp add: resume_def take_next_def Let_def)

lemma drain_extends: "\<exists>evs. ptrace (drain items start finish sc ps) = ptrace ps @ evs"
proof (induction items start finish sc ps rule: drain.induct)
  case (1 items start finish sc ps)
  show ?case
  proof (cases "flying ps = []")
    case True
    then show ?thesis by (simp add: drain_empty)
  next
    case False
    let ?ps' = "resume items start finish (pick sc (length (flying ps))) ps"
    have unf: "drain items start finish sc ps = drain items start finish (tl sc) ?ps'"
      using False by (subst drain.simps) simp
    obtain e1 where e1: "ptrace ?ps' = ptrace ps @ e1"
      using resume_extends by blast
    obtain e2 where e2: "ptrace (drain items start finish (tl sc) ?ps') = ptrace ?ps' @ e2"
      using "1.IH" [OF False] by blast
    show ?thesis unfolding unf using e1 e2 by simp
  qed
qed

lemma withPool_starts:
  "take (pool_width poolSize (length items)) (ptrace (withPool items poolSize start finish sc s))
     = map Take [0..<pool_width poolSize (length items)]"
proof -
  let ?n = "pool_width poolSize (length items)"
  let ?ps0 = "\<lparr>counter = 0, flying = [], user = s, ptrace = []\<rparr>"
  have "counter ?ps0 + ?n \<le> length items" by (simp add: pool_width_le)
  from spawn_trace [OF this, of start]
  have sp: "ptrace (spawn ?n items start ?ps0) = map Take [0..<?n]" by simp
  obtain evs where "ptrace (drain items start finish sc (spawn ?n items start ?ps0))
                      = ptrace (spawn ?n items start ?ps0) @ evs"
    using drain_extends by blast
  then show ?thesis by (simp add: withPool_def sp)
qed

subsection \<open>The loops of the source as list functions\<close>

lemma missing_loop_filter:
  "missing_loop K es acc = acc @ filter (\<lambda>n. truthy n \<and> \<not> has_key K n) (map entry_name es)"
  by (induction es arbitrary: acc) (simp_all add: Let_def)

lemma missing_truthy: "name \<in> set (compute_missing K lst) \<Longrightarrow> truthy name \<and> \<not> has_key K name"
  by (simp add: compute_missing_def missing_loop_filter)

lemma first_named_localized: "first_named l ns = localized l ns"
  by (induction ns) (simp_all add: localized_def)

lemma localized_truthy:
  assumes "localized l ns = Some v"
  shows "truthy v"
proof -
  obtain n where f: "find (name_in_lang l) ns = Some n" and g: "get_prop n ''name'' = Some v"
    using assms by (auto simp: localized_def split: option.splits)
  from f have "name_in_lang l n" by (auto simp: find_Some_iff)
  then show ?thesis using g by (simp add: name_in_lang_def)
qed

lemma pick_chain: "ability_display str a key = fallback_chain str a key"
  by (cases a)
     (auto simp: ability_display_def pickNameEsOrEn_def fallback_chain_def first_named_localized
       names_array_def own_name_def text_or_key_def guarded_prop_def Let_def
       split: option.splits json.splits)

lemma display_truthy: "truthy key \<Longrightarrow> truthy (ability_display str a key)"
  by (simp add: ability_display_def Let_def)

lemma moves_names:
  "(case guarded_prop (Some mv) ''names'' of
      Some v \<Rightarrow> if truthy v then elems v else []
    | None \<Rightarrow> []) = names_list mv"
proof -
  have "\<not> truthy v \<Longrightarrow> elems v = []" for v
    by (cases v) auto
  then show ?thesis
    by (cases mv) (auto simp: guarded_prop_def names_list_def split: option.splits)
qed

lemma moves_chain:
  "moves_display mv = (case localized ''es'' (names_list mv) of Some v \<Rightarrow> v | None \<Rightarrow> JNull)"
  by (auto simp: moves_display_def pickSpanishName_def first_named_localized Let_def moves_names
       dest: localized_truthy split: option.splits)

subsection \<open>The worker callback along a trace\<close>

lemma map_of_set_prop: "map_of (set_prop k v kv) = (map_of kv)(k \<mapsto> v)"
  by (induction kv) (auto simp: fun_eq_iff)

lemma knownKeys_dom: "knownKeys m = dom (map_of m)"
  by (simp add: knownKeys_def dom_map_of_conv_image_fst)

lemma map_of_assign_entry:
  "map_of (assign_entry k v m)
     = (if k = ''__proto__'' \<and> map_of m k = None then map_of m else (map_of m)(k \<mapsto> v))"
  by (auto simp: assign_entry_def map_of_set_prop)

lemma worker_finish_fetched:
  "worker_finish r w st name idx =
     (case fetched r w idx name of
        Some rec \<Rightarrow> st\<lparr>snapshot := assign_entry (entry_key r name) (JObj rec) (snapshot st),
                        added := Suc (added st)\<rparr>
      | None \<Rightarrow> st\<lparr>failed := Suc (failed st)\<rparr>)"
  by (simp add: worker_finish_def fetched_def entry_key_def split: response.splits option.splits)

lemma replay_events:
  "events (replay missing (worker_start r) (worker_finish r w) tr st)
     = events st @ map (\<lambda>i. HttpGet (detail_url r (missing ! i))) (taken tr)"
  by (induction tr arbitrary: st rule: taken.induct)
     (simp_all add: worker_start_def worker_finish_fetched split: option.splits)

lemma replay_added:
  "added (replay missing (worker_start r) (worker_finish r w) tr st)
     = added st + length (filter (\<lambda>i. fetched r w i (missing ! i) \<noteq> None) (dones tr))"
  by (induction tr arbitrary: st rule: taken.induct)
     (auto simp: worker_start_def worker_finish_fetched split: option.splits)

lemma replay_failed:
  "failed (replay missing (worker_start r) (worker_finish r w) tr st)
     = failed st + length (filter (\<lambda>i. fetched r w i (missing ! i) = None) (dones tr))"
  by (induction tr arbitrary: st rule: taken.induct)
     (auto simp: worker_start_def worker_finish_fetched split: option.splits)

text \<open>A key none of whose fetches succeeded keeps what it had.\<close>

lemma replay_unchanged:
  assumes "\<forall>i \<in> set (dones tr). entry_key r (missing ! i) = k \<longrightarrow> fetched r w i (missing ! i) = None"
  shows "map_of (snapshot (replay missing (worker_start r) (worker_finish r w) tr st)) k
           = map_of (snapshot st) k"
  using assms
proof (induction tr arbitrary: st rule: taken.induct)
  case 1
  then show ?case by simp
next
  case (2 i evs)
  then show ?case by (simp add: worker_start_def)
next
  case (3 i evs)
  have rest: "\<forall>j \<in> set (dones evs). entry_key r (missing ! j) = k
                \<longrightarrow> fetched r w j (missing ! j) = None"
    using "3.prems" by simp
  have here: "entry_key r (missing ! i) = k \<longrightarrow> fetched r w i (missing ! i) = None"
    using "3.prems" by simp
  have "map_of (snapshot (worker_finish r w st (missing ! i) i)) k = map_of (snapshot st) k"
    using here by (auto simp: worker_finish_fetched map_of_assign_entry split: option.splits)
  then show ?case using "3.IH" [OF rest] by simp
qed

text \<open>
  A key other than \<^verbatim>\<open>__proto__\<close> with a fetch that succeeded holds the record of one
  of its successful fetches (the one that finished last).
\<close>

lemma replay_stored:
  assumes "k \<noteq> ''__proto__''"
    and "\<exists>i \<in> set (dones tr). entry_key r (missing ! i) = k \<and> fetched r w i (missing ! i) \<noteq> None"
  shows "\<exists>i \<in> set (dones tr). entry_key r (missing ! i) = k
           \<and> (\<exists>rec. fetched r w i (missing ! i) = Some rec
                \<and> map_of (snapshot (replay missing (worker_start r) (worker_finish r w) tr st)) k
                    = Some (JObj rec))"
  using assms(2)
proof (induction tr arbitrary: st rule: taken.induct)
  case 1
  then show ?case by simp
next
  case (2 i evs)
  then show ?case by (simp add: worker_start_def)
next
  case (3 i evs)
  let ?st' = "worker_finish r w st (missing ! i) i"
  show ?case
  proof (cases "\<exists>j \<in> set (dones evs). entry_key r (missing ! j) = k
                  \<and> fetched r w j (missing ! j) \<noteq> None")
    case True
    from "3.IH" [OF True, of ?st'] show ?thesis by auto
  next
    case False
    then have none: "\<forall>j \<in> set (dones evs). entry_key r (missing ! j) = k
                       \<longrightarrow> fetched r w j (missing ! j) = None"
      by blast
    from "3.prems" False obtain rec where
      key: "entry_key r (missing ! i) = k" and ok: "fetched r w i (missing ! i) = Some rec"
      by auto
    have "map_of (snapshot ?st') k = Some (JObj rec)"
      using key ok assms(1) by (simp add: worker_finish_fetched map_of_assign_entry)
    then have "map_of (snapshot (replay missing (worker_start r) (worker_finish r w) evs ?st')) k
                 = Some (JObj rec)"
      using replay_unchanged [OF none, of ?st'] by simp
    then show ?thesis using key ok by auto
  qed
qed

lemma filter_length_mset:
  "mset xs = mset ys \<Longrightarrow> length (filter P xs) = length (filter P ys)"
  by (metis mset_filter size_mset)

subsection \<open>What the pool leaves in the run state\<close>

lemma fetch_idle:
  "pool_width (POOL w) (length missing) = 0 \<Longrightarrow> fetch_missing r w missing st = st"
  by (simp add: fetch_missing_def withPool_idle)

lemma fetch_replay:
  assumes "1 \<le> pool_width (POOL w) (length missing)"
  obtains tr where
    "fetch_missing r w missing st = replay missing (worker_start r) (worker_finish r w) tr st"
    "taken tr = [0..<length missing]" "mset (dones tr) = mset [0..<length missing]"
proof -
  let ?fin = "withPool missing (POOL w) (worker_start r) (worker_finish r w) (sched w) st"
  have inv: "pool_inv missing (worker_start r) (worker_finish r w)
               (pool_width (POOL w) (length missing)) st ?fin"
    using withPool_inv [of missing "worker_start r" "worker_finish r w" "POOL w" st "sched w"]
    by simp
  have fl: "flying ?fin = []"
    using withPool_inv [of missing "worker_start r" "worker_finish r w" "POOL w" st "sched w"]
    by simp
  have cnt: "counter ?fin = length missing" using assms by (rule withPool_all)
  show ?thesis
  proof (rule that [of "ptrace ?fin"])
    show "fetch_missing r w missing st
            = replay missing (worker_start r) (worker_finish r w) (ptrace ?fin) st"
      using inv by (simp add: fetch_missing_def pool_inv_def)
    show "taken (ptrace ?fin) = [0..<length missing]"
      using inv cnt by (simp add: pool_inv_def)
    show "mset (dones (ptrace ?fin)) = mset [0..<length missing]"
      using inv cnt fl by (simp add: pool_inv_def)
  qed
qed

lemma fetch_events:
  assumes "1 \<le> pool_width (POOL w) (length missing)"
  shows "events (fetch_missing r w missing st)
           = events st @ map (\<lambda>name. HttpGet (detail_url r name)) missing"
proof -
  obtain tr where tr: "fetch_missing r w missing st
                        = replay missing (worker_start r) (worker_finish r w) tr st"
    and tk: "taken tr = [0..<length missing]"
    using assms by (rule fetch_replay)
  have "map (\<lambda>i. HttpGet (detail_url r (missing ! i))) [0..<length missing]
          = map (\<lambda>name. HttpGet (detail_url r name)) (map ((!) missing) [0..<length missing])"
    by (simp add: comp_def)
  also have "\<dots> = map (\<lambda>name. HttpGet (detail_url r name)) missing"
    by (simp only: map_nth)
  finally show ?thesis using tr tk by (simp add: replay_events)
qed

lemma fetch_counts:
  assumes "1 \<le> pool_width (POOL w) (length missing)"
  shows "added (fetch_missing r w missing st)
           = added st
             + length (filter (\<lambda>i. fetched r w i (missing ! i) \<noteq> None) [0..<length missing])"
    and "failed (fetch_missing r w missing st)
           = failed st
             + length (filter (\<lambda>i. fetched r w i (missing ! i) = None) [0..<length missing])"
proof -
  obtain tr where tr: "fetch_missing r w missing st
                        = replay missing (worker_start r) (worker_finish r w) tr st"
    and dn: "mset (dones tr) = mset [0..<length missing]"
    using assms by (rule fetch_replay)
  have "length (filter (\<lambda>i. fetched r w i (missing ! i) \<noteq> None) (dones tr))
          = length (filter (\<lambda>i. fetched r w i (missing ! i) \<noteq> None) [0..<length missing])"
    using dn by (rule filter_length_mset)
  then show "added (fetch_missing r w missing st)
           = added st
             + length (filter (\<lambda>i. fetched r w i (missing ! i) \<noteq> None) [0..<length missing])"
    using tr by (simp add: replay_added)
  have "length (filter (\<lambda>i. fetched r w i (missing ! i) = None) (dones tr))
          = length (filter (\<lambda>i. fetched r w i (missing ! i) = None) [0..<length missing])"
    using dn by (rule filter_length_mset)
  then show "failed (fetch_missing r w missing st)
           = failed st
             + length (filter (\<lambda>i. fetched r w i (missing ! i) = None) [0..<length missing])"
    using tr by (simp add: replay_failed)
qed

lemma fetch_unchanged:
  assumes "\<forall>i < length missing. entry_key r (missing ! i) = k
             \<longrightarrow> fetched r w i (missing ! i) = None"
  shows "map_of (snapshot (fetch_missing r w missing st)) k = map_of (snapshot st) k"
proof (cases "1 \<le> pool_width (POOL w) (length missing)")
  case True
  obtain tr where tr: "fetch_missing r w missing st
                        = replay missing (worker_start r) (worker_finish r w) tr st"
    and dn: "mset (dones tr) = mset [0..<length missing]"
    using True by (rule fetch_replay)
  have sd: "set (dones tr) = {0..<length missing}"
    using dn by (metis mset_eq_setD set_upt)
  have "\<forall>i \<in> set (dones tr). entry_key r (missing ! i) = k
          \<longrightarrow> fetched r w i (missing ! i) = None"
    using assms sd by simp
  then show ?thesis using tr replay_unchanged by simp
next
  case False
  then have "pool_width (POOL w) (length missing) = 0" by simp
  then show ?thesis by (simp add: fetch_idle)
qed

lemma fetch_stored:
  assumes "1 \<le> pool_width (POOL w) (length missing)" and "k \<noteq> ''__proto__''"
    and "\<exists>i < length missing. entry_key r (missing ! i) = k \<and> fetched r w i (missing ! i) \<noteq> None"
  shows "\<exists>i < length missing. entry_key r (missing ! i) = k
           \<and> (\<exists>rec. fetched r w i (missing ! i) = Some rec
                \<and> map_of (snapshot (fetch_missing r w missing st)) k = Some (JObj rec))"
proof -
  obtain tr where tr: "fetch_missing r w missing st
                        = replay missing (worker_start r) (worker_finish r w) tr st"
    and dn: "mset (dones tr) = mset [0..<length missing]"
    using assms(1) by (rule fetch_replay)
  have sd: "set (dones tr) = {0..<length missing}"
    using dn by (metis mset_eq_setD set_upt)
  have "\<exists>i \<in> set (dones tr). entry_key r (missing ! i) = k
          \<and> fetched r w i (missing ! i) \<noteq> None"
    using assms(3) sd by auto
  from replay_stored [OF assms(2) this, of st] show ?thesis
    using tr sd by auto
qed

subsection \<open>The shape of a run\<close>

lemma last_segment_nonempty: "last_segment u = Some f \<Longrightarrow> f \<noteq> []"
proof -
  assume a: "last_segment u = Some f"
  let ?ts = "filter (\<lambda>t. t \<noteq> []) (split_slash u)"
  from a have ne: "?ts \<noteq> []" and f: "f = last ?ts"
    by (auto simp: last_segment_def split: list.splits)
  from ne have "last ?ts \<in> set ?ts" by (rule last_in_set)
  then show ?thesis using f by simp
qed

lemma join_path_inj [simp]: "join_path d f = join_path d g \<longleftrightarrow> f = g"
  by (simp add: join_path_def)

lemma publish_eq:
  "publish r w manifest m d =
     ((fst d)(newMapPath r w := Some m, manifestPath r := Some (new_manifest r w manifest)),
      snd d @ [FileWrite (newMapPath r w) m, FileWrite (manifestPath r) (new_manifest r w manifest)])"
  by (simp add: publish_def writeJSON_def)

lemma from_listing_outcome:
  "from_listing r w manifest m ret (fs, [HttpGet (probe_url r)]) =
     (case http w 1 (list_url r) of
        Body lst \<Rightarrow>
          if missing_of r w m = []
          then finished NoOpDiff (fs, [HttpGet (probe_url r), HttpGet (list_url r)])
          else finished (Published (added (fetch_state r w m)) (failed (fetch_state r w m)))
                 (ret (publish r w manifest (snapshot (fetch_state r w m))
                        (fs, events (fetch_state r w m))))
      | _ \<Rightarrow> finished (Fatal ListingFailed) (fs, [HttpGet (probe_url r), HttpGet (list_url r)]))"
  by (simp add: from_listing_def missing_of_def fetch_state_def Let_def split: response.splits)

lemma boot_published:
  assumes "outcome (main_boot r w) = Published a f"
  shows "main_boot r w =
           finished (Published a f)
             (retire r w (old_name_boot r w) (old_path_boot r w)
                (publish r w (manifest_of r w) (snapshot (fetch_state r w (prior_boot r w)))
                   (files w, events (fetch_state r w (prior_boot r w)))))
         \<and> a = added (fetch_state r w (prior_boot r w))
         \<and> f = failed (fetch_state r w (prior_boot r w))
         \<and> missing_of r w (prior_boot r w) \<noteq> []
         \<and> files w (manifestPath r) \<noteq> None"
  using assms
  by (auto simp: main_boot_def from_listing_outcome finished_def Let_def manifest_of_def
        old_name_boot_def old_path_boot_def prior_boot_def
      split: option.splits response.splits prod.splits if_splits)

lemma moves_published:
  assumes "outcome (main_moves r w) = Published a f"
  shows "\<exists>oldFileName esMap. old_name_moves r w = Some oldFileName \<and> prior_moves r w = Some esMap
         \<and> main_moves r w =
           finished (Published a f)
             (retire_moves r w oldFileName (join_path (dir r) oldFileName)
                (publish r w (manifest_of r w) (snapshot (fetch_state r w esMap))
                   (files w, events (fetch_state r w esMap))))
         \<and> a = added (fetch_state r w esMap)
         \<and> f = failed (fetch_state r w esMap)
         \<and> missing_of r w esMap \<noteq> []
         \<and> files w (manifestPath r) \<noteq> None"
  using assms
  by (auto simp: main_moves_def from_listing_outcome finished_def Let_def manifest_of_def
        old_name_moves_def prior_moves_def
      split: option.splits response.splits prod.splits if_splits)

lemma old_boot_cases:
  "(old_name_boot r w = None \<and> old_path_boot r w = None \<and> prior_boot r w = [])
   \<or> (\<exists>f. f \<noteq> [] \<and> old_name_boot r w = Some f \<and> old_path_boot r w = Some (join_path (dir r) f)
          \<and> prior_boot r w = (case files w (join_path (dir r) f) of None \<Rightarrow> [] | Some m \<Rightarrow> m))"
  by (auto simp: old_name_boot_def old_path_boot_def prior_boot_def load_state_def
      dest: last_segment_nonempty split: option.splits)

lemma old_moves_nonempty: "old_name_moves r w = Some f \<Longrightarrow> f \<noteq> []"
  by (auto simp: old_name_moves_def dest: last_segment_nonempty split: option.splits if_splits)

lemma join_path_nonempty: "join_path d f \<noteq> []"
  by (simp add: join_path_def)

lemma retire_boot_eq:
  "retire r w (old_name_boot r w) (old_path_boot r w) d =
     (case old_name_boot r w of
        None \<Rightarrow> d
      | Some f \<Rightarrow>
          if f \<noteq> newFileName r w \<and> fst d (join_path (dir r) f) \<noteq> None
          then ((fst d)(join_path (dir r) f := None), snd d @ [FileUnlink (join_path (dir r) f)])
          else d)"
  using old_boot_cases [of r w]
  by (auto simp: retire_def safeUnlink_def unlinkSync_def join_path_nonempty)

lemma retire_moves_eq:
  "f \<noteq> [] \<Longrightarrow> retire_moves r w f (join_path (dir r) f) d =
     (if f \<noteq> newFileName r w \<and> fst d (join_path (dir r) f) \<noteq> None
          then ((fst d)(join_path (dir r) f := None), snd d @ [FileUnlink (join_path (dir r) f)])
          else d)"
  by (auto simp: retire_moves_def safeUnlink_moves_def unlinkSync_def)

lemma run_published:
  assumes run: "is_run r w res old m" and pub: "outcome res = Published a f"
  shows "a = added (fetch_state r w m) \<and> f = failed (fetch_state r w m)
         \<and> missing_of r w m \<noteq> []
         \<and> files w (manifestPath r) \<noteq> None
         \<and> trace res = events (fetch_state r w m)
             @ [FileWrite (newMapPath r w) (snapshot (fetch_state r w m)),
                FileWrite (manifestPath r) (new_manifest r w (manifest_of r w))]
             @ retire_events r w old m
         \<and> files_after res = run_events (post_publish r w m) (retire_events r w old m)"
proof -
  from run consider
      (boot) "res = main_boot r w" "old = old_name_boot r w" "m = prior_boot r w"
    | (moves) "res = main_moves r w" "old = old_name_moves r w" "prior_moves r w = Some m"
    by (auto simp: is_run_def)
  then show ?thesis
  proof cases
    case boot
    from pub boot have p: "outcome (main_boot r w) = Published a f" by simp
    show ?thesis
      using boot_published [OF p] boot
      by (auto simp: retire_boot_eq publish_eq finished_def retire_events_def post_publish_def
          split: option.splits)
  next
    case moves
    from pub moves have p: "outcome (main_moves r w) = Published a f" by simp
    from moves_published [OF p] obtain f' where
      f': "old_name_moves r w = Some f'" 
      and eq: "main_moves r w =
           finished (Published a f)
             (retire_moves r w f' (join_path (dir r) f')
                (publish r w (manifest_of r w) (snapshot (fetch_state r w m))
                   (files w, events (fetch_state r w m))))"
      and rest: "a = added (fetch_state r w m)" "f = failed (fetch_state r w m)"
         "missing_of r w m \<noteq> []" "files w (manifestPath r) \<noteq> None"
      using moves by auto
    have ne: "f' \<noteq> []" using f' by (rule old_moves_nonempty)
    show ?thesis
      using eq rest moves f'
      by (auto simp: retire_moves_eq [OF ne] publish_eq finished_def retire_events_def
          post_publish_def)
  qed
qed

lemma run_events_append: "run_events fs (xs @ ys) = run_events (run_events fs xs) ys"
proof (induction xs arbitrary: fs)
  case Nil
  then show ?case by simp
next
  case (Cons e xs)
  then show ?case by (cases e) (simp_all add: fun_upd_def)
qed

lemma run_events_requests: "list_all is_request evs \<Longrightarrow> run_events fs evs = fs"
proof (induction evs)
  case Nil
  then show ?case by simp
next
  case (Cons e evs)
  then show ?case by (cases e) simp_all
qed

lemma writes_append: "writes (xs @ ys) = writes xs @ writes ys"
  by (induction xs rule: writes.induct) simp_all

lemma writes_requests: "list_all is_request evs \<Longrightarrow> writes evs = []"
  by (induction evs rule: writes.induct) simp_all

lemma fetch_state_events:
  "events (fetch_state r w m)
     = [HttpGet (probe_url r), HttpGet (list_url r)]
       @ (if 1 \<le> pool_width (POOL w) (length (missing_of r w m))
          then map (\<lambda>name. HttpGet (detail_url r name)) (missing_of r w m) else [])"
proof (cases "1 \<le> pool_width (POOL w) (length (missing_of r w m))")
  case True
  then show ?thesis by (simp add: fetch_state_def fetch_events)
next
  case False
  then have "pool_width (POOL w) (length (missing_of r w m)) = 0" by simp
  then show ?thesis by (simp add: fetch_state_def fetch_idle)
qed

lemma fetch_state_requests: "list_all is_request (events (fetch_state r w m))"
  by (auto simp: fetch_state_events list_all_iff)

lemma retire_events_unlinks: "list_all is_unlink (retire_events r w old m)"
  by (simp add: retire_events_def split: option.splits)

lemma retire_events_writes: "writes (retire_events r w old m) = []"
  by (simp add: retire_events_def split: option.splits)

lemma new_manifest_url:
  "map_of (new_manifest r w manifest) (url_key r) = Some (JStr (url_dir r @ newFileName r w))"
  by (simp add: new_manifest_def map_of_set_prop)

lemma past_probe_run: "past_probe r w res old m \<Longrightarrow> is_run r w res old m"
  by (auto simp: past_probe_def is_run_def split: option.splits)

lemma past_probe_listing:
  assumes "past_probe r w res old m"
  shows "(\<forall>lst. http w 1 (list_url r) \<noteq> Body lst)
           \<and> res = finished (Fatal ListingFailed) (files w, [HttpGet (probe_url r), HttpGet (list_url r)])
         \<or> (\<exists>lst. http w 1 (list_url r) = Body lst) \<and> missing_of r w m = []
           \<and> res = finished NoOpDiff (files w, [HttpGet (probe_url r), HttpGet (list_url r)])
         \<or> missing_of r w m \<noteq> []
           \<and> outcome res = Published (added (fetch_state r w m)) (failed (fetch_state r w m))"
  using assms
  by (auto simp: past_probe_def probe_count_def main_boot_def main_moves_def from_listing_outcome
        finished_def Let_def manifest_of_def old_name_boot_def old_path_boot_def prior_boot_def
        old_name_moves_def prior_moves_def
      split: option.splits response.splits prod.splits if_splits)

lemma past_probe_trace:
  assumes pp: "past_probe r w res old m"
  shows "take 2 (trace res) = [HttpGet (probe_url r), HttpGet (list_url r)]"
proof -
  from past_probe_listing [OF pp] consider
      (fail) "res = finished (Fatal ListingFailed) (files w, [HttpGet (probe_url r), HttpGet (list_url r)])"
    | (noop) "res = finished NoOpDiff (files w, [HttpGet (probe_url r), HttpGet (list_url r)])"
    | (pub) "outcome res = Published (added (fetch_state r w m)) (failed (fetch_state r w m))"
    by blast
  then show ?thesis
  proof cases
    case fail
    then show ?thesis by (simp add: finished_def)
  next
    case noop
    then show ?thesis by (simp add: finished_def)
  next
    case pub
    from run_published [OF past_probe_run [OF pp] pub]
    have "trace res = events (fetch_state r w m)
             @ [FileWrite (newMapPath r w) (snapshot (fetch_state r w m)),
                FileWrite (manifestPath r) (new_manifest r w (manifest_of r w))]
             @ retire_events r w old m" by simp
    then show ?thesis by (simp add: fetch_state_events)
  qed
qed

lemma post_publish_keeps: "files w p \<noteq> None \<Longrightarrow> post_publish r w m p \<noteq> None"
  by (simp add: post_publish_def)

lemma missing_of_truthy:
  "name \<in> set (missing_of r w m) \<Longrightarrow> truthy name \<and> \<not> has_key (knownKeys m) name"
  by (auto simp: missing_of_def dest: missing_truthy split: response.splits)

lemma missing_of_new_key: "JStr k \<in> set (missing_of r w m) \<Longrightarrow> k \<notin> knownKeys m"
proof -
  assume "JStr k \<in> set (missing_of r w m)"
  then have "\<not> has_key (knownKeys m) (JStr k)" by (rule missing_of_truthy [THEN conjunct2])
  then show ?thesis by (simp add: has_key_def)
qed

lemma run_writes:
  assumes "is_run r w res old m" and "outcome res = Published a f"
  shows "writes (trace res)
           = [(newMapPath r w, snapshot (fetch_state r w m)),
              (manifestPath r, new_manifest r w (manifest_of r w))]"
  using run_published [OF assms]
  by (simp add: writes_append writes_requests fetch_state_requests retire_events_writes)

lemma pool_width_zero:
  assumes "a = NaN \<or> a = NegInf \<or> (\<exists>q. a = Fin q \<and> q < 1)"
  shows "pool_width a len = 0"
proof -
  have "\<not> 1 \<le> pool_width a len"
    using assms pool_width_pos_iff [of a len] by auto
  then show ?thesis by simp
qed

lemma boot_noop:
  assumes "files w (manifestPath r) \<noteq> None" and "probe_count r w = Some c"
    and "card (knownKeys (prior_boot r w)) \<noteq> 0"
    and "count_not_grown c (card (knownKeys (prior_boot r w)))"
  shows "main_boot r w = finished NoOpProbe (files w, [HttpGet (probe_url r)])"
  using assms
  by (auto simp: main_boot_def probe_count_def prior_boot_def manifest_of_def Let_def
      split: option.splits response.splits prod.splits)

lemma moves_noop:
  assumes "prior_moves r w = Some m" and "probe_count r w = Some c"
    and "count_not_grown c (card (knownKeys m))"
  shows "main_moves r w = finished NoOpProbe (files w, [HttpGet (probe_url r)])"
  using assms
  by (auto simp: main_moves_def probe_count_def prior_moves_def old_name_moves_def
        manifest_of_def manifest_url_def Let_def
      split: option.splits response.splits prod.splits if_splits)

lemma prior_moves_manifest: "prior_moves r w = Some m \<Longrightarrow> files w (manifestPath r) \<noteq> None"
  by (auto simp: prior_moves_def old_name_moves_def manifest_of_def manifest_url_def
      split: option.splits)

lemma count_not_grown_iff:
  "count_not_grown c n \<longleftrightarrow> (\<exists>q. c = Some q \<and> q \<le> of_nat n)"
  by (cases c) (simp_all add: count_not_grown_def)
lemma boot_probe_failed:
  "files w (manifestPath r) \<noteq> None \<Longrightarrow> probe_count r w = None
     \<Longrightarrow> main_boot r w = finished (Fatal ProbeFailed) (files w, [HttpGet (probe_url r)])"
  by (auto simp: main_boot_def probe_count_def split: option.splits response.splits prod.splits)

subsection \<open>Evaluating a run of the concrete world\<close>

lemmas run_defs = update_ability_map_def main_boot_def ability_def manifestPath_def join_path_def
  scenario_def scenario_files_def scenario_http_def scenario_urls_def load_state_def manifest_url_def js_String_def
  last_segment_def probe_url_def API_def list_url_def getCountFromListResponse_def knownKeys_def
  count_not_grown_def from_listing_def compute_missing_def results_of_def guarded_prop_def
  entry_name_def has_key_def fetch_missing_def withPool_def pool_width_def js_min_def to_length_def
  take_next_def worker_start_def worker_finish_def detail_url_def resume_def pick_def drain.simps
  publish_def writeJSON_def newMapPath_def newFileName_def new_manifest_def retire_def
  safeUnlink_def unlinkSync_def finished_def detail_b_def scenario_same_day_def scenario_pool0_def scenario_partial_def scenario_twice_def
  missing_of_def fetched_def entry_key_def assign_entry_def scenario_bootstrap_def scenario_moves_empty_def
  update_moves_es_map_def main_moves_def moves_def probe_count_def prior_moves_def
  old_name_moves_def past_probe_def scenario_no_growth_def ability_record_def ability_display_def
  pickNameEsOrEn_def name_in_lang_def Let_def is_run_def old_name_boot_def prior_boot_def
  manifest_of_def

text \<open>
  The scenario of the specification runs as it says: \<^verbatim>\<open>b\<close> is fetched and merged, the
  manifest points to the new dated file, the old file is removed. A second run on the
  day of the prior snapshot overwrites the file in place and unlinks nothing, and a run
  against a catalog that has not grown stops after the probe.
\<close>

lemma scenario_trace:
  "trace (update_ability_map object_text scenario) =
     [HttpGet ''https://pokeapi.co/api/v2/ability?limit=1'',
      HttpGet ''https://pokeapi.co/api/v2/ability?limit=100000'',
      HttpGet ''https://pokeapi.co/api/v2/ability/b'',
      FileWrite ''public/abilities/ability_map.2026-02-21.json''
        [(''a'', JObj [(''id'', JNum (Fin 1))]),
         (''b'', JObj [(''id'', JNum (Fin 2)), (''gen'', JNull), (''display'', JStr ''Be'')])],
      FileWrite ''public/abilities/manifest.json''
        [(''version'', JStr ''2026-02-21''),
         (''ability_url'', JStr ''/abilities/ability_map.2026-02-21.json'')],
      FileUnlink ''public/abilities/ability_map.2026-02-20.json'']"
  by (simp add: run_defs)

lemma scenario_same_day_trace:
  "trace (update_ability_map object_text scenario_same_day) =
     [HttpGet ''https://pokeapi.co/api/v2/ability?limit=1'',
      HttpGet ''https://pokeapi.co/api/v2/ability?limit=100000'',
      HttpGet ''https://pokeapi.co/api/v2/ability/b'',
      FileWrite ''public/abilities/ability_map.2026-02-20.json''
        [(''a'', JObj [(''id'', JNum (Fin 1))]),
         (''b'', JObj [(''id'', JNum (Fin 2)), (''gen'', JNull), (''display'', JStr ''Be'')])],
      FileWrite ''public/abilities/manifest.json''
        [(''version'', JStr ''2026-02-20''),
         (''ability_url'', JStr ''/abilities/ability_map.2026-02-20.json'')]]"
  by (simp add: run_defs)

lemma scenario_no_growth_idempotent:
  "update_ability_map object_text scenario_no_growth
     = \<lparr>outcome = NoOpProbe, files_after = files scenario_no_growth,
        trace = [HttpGet ''https://pokeapi.co/api/v2/ability?limit=1'']\<rparr>"
  by (simp add: run_defs)

subsection \<open>The properties of the specification\<close>

text \<open>
  C1 as the code has it. Whatever the probe said (the diff does not read it),
  \<open>missing\<close> is the listing's names in listing order, with the names that are
  empty (or absent) and the names in \<open>knownKeys\<close> left out. As a set of
  strings: the non-empty names of the listing, minus the known keys.
\<close>

theorem C1_missing_is_filter:
  "compute_missing K lst
     = filter (\<lambda>n. truthy n \<and> \<not> has_key K n) (map entry_name (results_of lst))
   \<and> {s. JStr s \<in> set (compute_missing K lst)}
     = {s. s \<noteq> [] \<and> JStr s \<in> entry_name ` set (results_of lst)} - K"
  by (auto simp: compute_missing_def missing_loop_filter has_key_def)

text \<open>
  C1 as the specification states it fails on a listing entry whose name is the empty
  string: the name is not among the known keys, and the guard \<^verbatim>\<open>name
  &&\<close> keeps it out of \<open>missing\<close>.
\<close>

theorem C1_counterexample:
  "get_prop (JObj [(''name'', JStr [])]) ''name'' = Some (JStr [])
   \<and> [] \<notin> ({} :: string set)
   \<and> compute_missing {} (JObj [(''results'', JArr [JObj [(''name'', JStr [])]])]) = []"
  by (simp add: compute_missing_def results_of_def guarded_prop_def entry_name_def)

text \<open>
  C2 as the code has it. In every publishing run, a key of the snapshot written is a key
  of the prior snapshot or the key of an entry fetched and extracted in this run; a key
  none of whose fetches succeeded holds what the prior snapshot held, so the key of a
  listed name all of whose fetches failed is absent; and when the listed names are
  strings no prior entry is changed. When the pool has at least one worker (pool size
  at least 1), every one of the \<open>M\<close> scheduled fetches is attempted: with \<open>N\<close> failures
  counted, the run counts the other \<open>M - N\<close> as added, and each key with a successful
  fetch holds the record of a successful fetch of that key (the key \<^verbatim>\<open>__proto__\<close>
  apart, of which nothing is said). When the pool has no worker, the snapshot written
  is the prior one and nothing is counted.
\<close>

theorem C2_published_snapshot:
  assumes run: "is_run r w res old m" and pub: "outcome res = Published a f"
  shows "\<exists>snap.
           writes (trace res)
             = [(newMapPath r w, snap), (manifestPath r, new_manifest r w (manifest_of r w))]
         \<and> (\<forall>k \<in> knownKeys snap.
               k \<in> knownKeys m
               \<or> (\<exists>i < length (missing_of r w m).
                     entry_key r (missing_of r w m ! i) = k
                     \<and> fetched r w i (missing_of r w m ! i) \<noteq> None))
         \<and> (1 \<le> pool_width (POOL w) (length (missing_of r w m)) \<longrightarrow>
               f = length (filter (\<lambda>i. fetched r w i (missing_of r w m ! i) = None)
                                  [0..<length (missing_of r w m)])
             \<and> a = length (missing_of r w m) - f
             \<and> (\<forall>k. k \<noteq> ''__proto__''
                      \<and> (\<exists>i < length (missing_of r w m).
                            entry_key r (missing_of r w m ! i) = k
                            \<and> fetched r w i (missing_of r w m ! i) \<noteq> None)
                    \<longrightarrow> (\<exists>i < length (missing_of r w m).
                            entry_key r (missing_of r w m ! i) = k
                            \<and> (\<exists>rec. fetched r w i (missing_of r w m ! i) = Some rec
                                 \<and> map_of snap k = Some (JObj rec)))))
         \<and> (\<forall>k. (\<forall>i < length (missing_of r w m).
                     entry_key r (missing_of r w m ! i) = k
                     \<longrightarrow> fetched r w i (missing_of r w m ! i) = None)
                \<longrightarrow> map_of snap k = map_of m k)
         \<and> (\<forall>k. JStr k \<in> set (missing_of r w m)
                  \<and> (\<forall>i < length (missing_of r w m).
                        entry_key r (missing_of r w m ! i) = k
                        \<longrightarrow> fetched r w i (missing_of r w m ! i) = None)
                \<longrightarrow> k \<notin> knownKeys snap)
         \<and> ((\<forall>name \<in> set (missing_of r w m). \<exists>s. name = JStr s)
                \<longrightarrow> (\<forall>k \<in> knownKeys m. map_of snap k = map_of m k))
         \<and> (pool_width (POOL w) (length (missing_of r w m)) = 0 \<longrightarrow> snap = m \<and> a = 0 \<and> f = 0)"
proof -
  let ?missing = "missing_of r w m"
  let ?st = "fetch_state r w m"
  let ?init = "\<lparr>snapshot = m, added = 0, failed = 0,
               events = [HttpGet (probe_url r), HttpGet (list_url r)]\<rparr>"
  let ?ok = "\<lambda>k. \<exists>i < length ?missing. entry_key r (?missing ! i) = k
                     \<and> fetched r w i (?missing ! i) \<noteq> None"
  let ?allfail = "\<lambda>k. \<forall>i < length ?missing. entry_key r (?missing ! i) = k
                     \<longrightarrow> fetched r w i (?missing ! i) = None"
  have af: "a = added ?st" "f = failed ?st"
    using run_published [OF run pub] by blast+
  have wr: "writes (trace res)
             = [(newMapPath r w, snapshot ?st), (manifestPath r, new_manifest r w (manifest_of r w))]"
    by (rule run_writes [OF run pub])
  have unchanged: "map_of (snapshot ?st) k = map_of m k" if "?allfail k" for k
    using fetch_unchanged [OF that, of ?init] by (simp add: fetch_state_def)
  have prov: "\<forall>k \<in> knownKeys (snapshot ?st). k \<in> knownKeys m \<or> ?ok k"
  proof
    fix k assume k: "k \<in> knownKeys (snapshot ?st)"
    show "k \<in> knownKeys m \<or> ?ok k"
    proof (cases "?ok k")
      case True
      then show ?thesis by blast
    next
      case False
      then have "?allfail k" by blast
      then have "map_of (snapshot ?st) k = map_of m k" by (rule unchanged)
      then show ?thesis using k by (auto simp: knownKeys_dom)
    qed
  qed
  have un: "\<forall>k. ?allfail k \<longrightarrow> map_of (snapshot ?st) k = map_of m k"
    using unchanged by blast
  have absent: "\<forall>k. JStr k \<in> set ?missing \<and> ?allfail k \<longrightarrow> k \<notin> knownKeys (snapshot ?st)"
  proof (intro allI impI)
    fix k assume h: "JStr k \<in> set ?missing \<and> ?allfail k"
    then have "map_of (snapshot ?st) k = map_of m k" using unchanged by blast
    moreover have "k \<notin> knownKeys m" using h missing_of_new_key by blast
    ultimately show "k \<notin> knownKeys (snapshot ?st)" by (auto simp: knownKeys_dom)
  qed
  have kept: "(\<forall>name \<in> set ?missing. \<exists>s. name = JStr s)
                \<longrightarrow> (\<forall>k \<in> knownKeys m. map_of (snapshot ?st) k = map_of m k)"
  proof (intro impI ballI)
    fix k assume str: "\<forall>name \<in> set ?missing. \<exists>s. name = JStr s" and k: "k \<in> knownKeys m"
    have "?allfail k"
    proof (intro allI impI)
      fix i assume i: "i < length ?missing" and key: "entry_key r (?missing ! i) = k"
      from i have mem: "?missing ! i \<in> set ?missing" by simp
      with str obtain s where s: "?missing ! i = JStr s" by blast
      then have "s = k" using key by (simp add: entry_key_def js_String_def)
      then have "JStr k \<in> set ?missing" using mem s by simp
      then have "k \<notin> knownKeys m" by (rule missing_of_new_key)
      then show "fetched r w i (?missing ! i) = None" using k by simp
    qed
    then show "map_of (snapshot ?st) k = map_of m k" by (rule unchanged)
  qed
  have exact: "1 \<le> pool_width (POOL w) (length ?missing) \<longrightarrow>
               f = length (filter (\<lambda>i. fetched r w i (?missing ! i) = None) [0..<length ?missing])
             \<and> a = length ?missing - f
             \<and> (\<forall>k. k \<noteq> ''__proto__'' \<and> ?ok k
                    \<longrightarrow> (\<exists>i < length ?missing.
                            entry_key r (?missing ! i) = k
                            \<and> (\<exists>rec. fetched r w i (?missing ! i) = Some rec
                                 \<and> map_of (snapshot ?st) k = Some (JObj rec))))"
  proof
    assume w1: "1 \<le> pool_width (POOL w) (length ?missing)"
    have fa: "f = length (filter (\<lambda>i. fetched r w i (?missing ! i) = None) [0..<length ?missing])"
      using af fetch_counts(2) [OF w1, of r ?init] by (simp add: fetch_state_def)
    have aa: "a = length (filter (\<lambda>i. fetched r w i (?missing ! i) \<noteq> None) [0..<length ?missing])"
      using af fetch_counts(1) [OF w1, of r ?init] by (simp add: fetch_state_def)
    have "length (filter (\<lambda>i. fetched r w i (?missing ! i) \<noteq> None) [0..<length ?missing])
            + length (filter (\<lambda>i. \<not> fetched r w i (?missing ! i) \<noteq> None) [0..<length ?missing])
          = length [0..<length ?missing]"
      by (rule sum_length_filter_compl)
    then have am: "a = length ?missing - f" using fa aa by simp
    have st: "\<forall>k. k \<noteq> ''__proto__'' \<and> ?ok k
                    \<longrightarrow> (\<exists>i < length ?missing.
                            entry_key r (?missing ! i) = k
                            \<and> (\<exists>rec. fetched r w i (?missing ! i) = Some rec
                                 \<and> map_of (snapshot ?st) k = Some (JObj rec)))"
    proof (intro allI impI)
      fix k assume h: "k \<noteq> ''__proto__'' \<and> ?ok k"
      then have k: "k \<noteq> ''__proto__''" and ok: "?ok k" by blast+
      from fetch_stored [OF w1 k ok, of ?init]
      show "\<exists>i < length ?missing.
                            entry_key r (?missing ! i) = k
                            \<and> (\<exists>rec. fetched r w i (?missing ! i) = Some rec
                                 \<and> map_of (snapshot ?st) k = Some (JObj rec))"
        by (simp add: fetch_state_def)
    qed
    show "f = length (filter (\<lambda>i. fetched r w i (?missing ! i) = None) [0..<length ?missing])
             \<and> a = length ?missing - f
             \<and> (\<forall>k. k \<noteq> ''__proto__'' \<and> ?ok k
                    \<longrightarrow> (\<exists>i < length ?missing.
                            entry_key r (?missing ! i) = k
                            \<and> (\<exists>rec. fetched r w i (?missing ! i) = Some rec
                                 \<and> map_of (snapshot ?st) k = Some (JObj rec))))"
      using fa am st by (intro conjI)
  qed
  have zero: "pool_width (POOL w) (length ?missing) = 0
                \<longrightarrow> snapshot ?st = m \<and> a = 0 \<and> f = 0"
    using af by (simp add: fetch_state_def fetch_idle)
  show ?thesis
    by (rule exI [of _ "snapshot ?st"]) (intro conjI wr prov exact un absent kept zero)
qed

theorem C2_published_snapshot_witness:
  "is_run (ability object_text) scenario_partial (update_ability_map object_text scenario_partial)
     (Some ''ability_map.2026-02-20.json'') [(''a'', JObj [(''id'', JNum (Fin 1))])]
   \<and> outcome (update_ability_map object_text scenario_partial) = Published 1 1
   \<and> missing_of (ability object_text) scenario_partial [(''a'', JObj [(''id'', JNum (Fin 1))])]
       = [JStr ''b'', JStr ''c'']
   \<and> 1 \<le> pool_width (POOL scenario_partial)
          (length (missing_of (ability object_text) scenario_partial
                     [(''a'', JObj [(''id'', JNum (Fin 1))])]))
   \<and> fetched (ability object_text) scenario_partial 0 (JStr ''b'') \<noteq> None
   \<and> fetched (ability object_text) scenario_partial 1 (JStr ''c'') = None
   \<and> (\<exists>snap.
         writes (trace (update_ability_map object_text scenario_partial))
           = [(newMapPath (ability object_text) scenario_partial, snap),
              (manifestPath (ability object_text),
               new_manifest (ability object_text) scenario_partial
                 (manifest_of (ability object_text) scenario_partial))]
       \<and> ''c'' \<notin> knownKeys snap
       \<and> (\<exists>rec. map_of snap ''b'' = Some (JObj rec))
       \<and> map_of snap ''a'' = Some (JObj [(''id'', JNum (Fin 1))]))"
proof -
  let ?r = "ability object_text"
  let ?w = "scenario_partial"
  let ?m = "[(''a'', JObj [(''id'', JNum (Fin 1))])]"
  let ?ms = "missing_of ?r ?w ?m"
  have old: "old_name_boot ?r ?w = Some ''ability_map.2026-02-20.json''"
    by code_simp
  have prior: "prior_boot ?r ?w = ?m"
    by code_simp
  have run: "is_run ?r ?w (update_ability_map object_text ?w)
               (Some ''ability_map.2026-02-20.json'') ?m"
    using old prior by (simp add: is_run_def update_ability_map_def)
  have pub: "outcome (update_ability_map object_text ?w) = Published 1 1"
    by code_simp
  have ms: "?ms = [JStr ''b'', JStr ''c'']"
    by code_simp
  have w1: "1 \<le> pool_width (POOL ?w) (length ?ms)"
    unfolding ms by (simp add: scenario_partial_def scenario_def pool_width_def js_min_def to_length_def)
  have okb: "fetched ?r ?w 0 (JStr ''b'') \<noteq> None" by code_simp
  have noc: "fetched ?r ?w 1 (JStr ''c'') = None" by code_simp
  have two: "(\<forall>i < length [x, y :: json]. P i) \<longleftrightarrow> P 0 \<and> P (Suc 0)" for x y P
    by (auto simp: less_Suc_eq)
  have failc: "\<forall>i < length ?ms. entry_key ?r (?ms ! i) = ''c'' \<longrightarrow> fetched ?r ?w i (?ms ! i) = None"
    unfolding ms two using noc by (simp add: entry_key_def js_String_def)
  have okb': "\<exists>i < length ?ms. entry_key ?r (?ms ! i) = ''b'' \<and> fetched ?r ?w i (?ms ! i) \<noteq> None"
    unfolding ms using okb by (intro exI [of _ 0]) (simp add: entry_key_def js_String_def)
  have faila: "\<forall>i < length ?ms. entry_key ?r (?ms ! i) = ''a'' \<longrightarrow> fetched ?r ?w i (?ms ! i) = None"
    unfolding ms two by (simp add: entry_key_def js_String_def)
  have inc: "JStr ''c'' \<in> set ?ms" unfolding ms by simp
  from C2_published_snapshot [OF run pub] obtain snap where
    wr: "writes (trace (update_ability_map object_text ?w))
           = [(newMapPath ?r ?w, snap), (manifestPath ?r, new_manifest ?r ?w (manifest_of ?r ?w))]"
    and exact: "1 \<le> pool_width (POOL ?w) (length ?ms) \<longrightarrow>
               1 = length (filter (\<lambda>i. fetched ?r ?w i (?ms ! i) = None) [0..<length ?ms])
             \<and> 1 = length ?ms - 1
             \<and> (\<forall>k. k \<noteq> ''__proto__''
                      \<and> (\<exists>i < length ?ms. entry_key ?r (?ms ! i) = k
                            \<and> fetched ?r ?w i (?ms ! i) \<noteq> None)
                    \<longrightarrow> (\<exists>i < length ?ms. entry_key ?r (?ms ! i) = k
                            \<and> (\<exists>rec. fetched ?r ?w i (?ms ! i) = Some rec
                                 \<and> map_of snap k = Some (JObj rec))))"
    and un: "\<forall>k. (\<forall>i < length ?ms. entry_key ?r (?ms ! i) = k
                     \<longrightarrow> fetched ?r ?w i (?ms ! i) = None)
                \<longrightarrow> map_of snap k = map_of ?m k"
    and absent: "\<forall>k. JStr k \<in> set ?ms
                  \<and> (\<forall>i < length ?ms. entry_key ?r (?ms ! i) = k
                        \<longrightarrow> fetched ?r ?w i (?ms ! i) = None)
                \<longrightarrow> k \<notin> knownKeys snap"
    by (elim exE conjE) (rule that, assumption+)
  have c: "''c'' \<notin> knownKeys snap" using absent inc failc by blast
  have "''b'' \<noteq> ''__proto__''" by simp
  then have b: "\<exists>rec. map_of snap ''b'' = Some (JObj rec)"
    using exact [rule_format, OF w1, THEN conjunct2, THEN conjunct2, rule_format, of "''b''"] okb'
    by blast
  have a: "map_of snap ''a'' = Some (JObj [(''id'', JNum (Fin 1))])"
    using un faila by simp
  have ex: "\<exists>snap.
         writes (trace (update_ability_map object_text ?w))
           = [(newMapPath ?r ?w, snap), (manifestPath ?r, new_manifest ?r ?w (manifest_of ?r ?w))]
       \<and> ''c'' \<notin> knownKeys snap
       \<and> (\<exists>rec. map_of snap ''b'' = Some (JObj rec))
       \<and> map_of snap ''a'' = Some (JObj [(''id'', JNum (Fin 1))])"
    by (rule exI [of _ snap]) (intro conjI wr c b a)
  show ?thesis
    by (intro conjI run pub ms w1 okb noc ex)
qed

text \<open>
  C2 as the specification states it fails when the pool size is below 1: with the
  variable set to \<^verbatim>\<open>0\<close> one entry is scheduled and none fails, yet the published
  snapshot is the prior one, without the scheduled entry. It also fails for a name the
  listing holds twice: when the first of its two fetches fails and the second succeeds,
  the key has a failed fetch and is in the published snapshot.
\<close>

theorem C2_counterexample:
  "outcome (update_ability_map object_text scenario_pool0) = Published 0 0
   \<and> missing_of (ability object_text) scenario_pool0 [(''a'', JObj [(''id'', JNum (Fin 1))])]
       = [JStr ''b'']
   \<and> writes (trace (update_ability_map object_text scenario_pool0))
       = [(''public/abilities/ability_map.2026-02-21.json'',
           [(''a'', JObj [(''id'', JNum (Fin 1))])]),
          (''public/abilities/manifest.json'',
           [(''version'', JStr ''2026-02-21''),
            (''ability_url'', JStr ''/abilities/ability_map.2026-02-21.json'')])]
   \<and> missing_of (ability object_text) scenario_twice [(''a'', JObj [(''id'', JNum (Fin 1))])]
       = [JStr ''b'', JStr ''b'']
   \<and> fetched (ability object_text) scenario_twice 0 (JStr ''b'') = None
   \<and> outcome (update_ability_map object_text scenario_twice) = Published 1 1
   \<and> writes (trace (update_ability_map object_text scenario_twice))
       = [(''public/abilities/ability_map.2026-02-21.json'',
           [(''a'', JObj [(''id'', JNum (Fin 1))]),
            (''b'', JObj [(''id'', JNum (Fin 2)), (''gen'', JNull), (''display'', JStr ''Be'')])]),
          (''public/abilities/manifest.json'',
           [(''version'', JStr ''2026-02-21''),
            (''ability_url'', JStr ''/abilities/ability_map.2026-02-21.json'')])]"
  by code_simp

text \<open>
  C3. In every run that publishes, of any of the three scripts, the trace is: requests
  only; then the write of the new snapshot file; then the write of the manifest, whose
  URL field names that file; then at most the unlink of the old file. At the moment
  the manifest is written, the snapshot file is on the disk with the snapshot in it.
\<close>

theorem C3_snapshot_before_manifest:
  assumes "is_run r w res old m" and "outcome res = Published a f"
  shows "\<exists>pre snap post.
           trace res = pre @ [FileWrite (newMapPath r w) snap,
                              FileWrite (manifestPath r) (new_manifest r w (manifest_of r w))] @ post
         \<and> list_all is_request pre \<and> list_all is_unlink post
         \<and> run_events (files w) (pre @ [FileWrite (newMapPath r w) snap]) (newMapPath r w) = Some snap
         \<and> map_of (new_manifest r w (manifest_of r w)) (url_key r)
             = Some (JStr (url_dir r @ newFileName r w))"
proof -
  let ?st = "fetch_state r w m"
  have tr: "trace res = events ?st
             @ [FileWrite (newMapPath r w) (snapshot ?st),
                FileWrite (manifestPath r) (new_manifest r w (manifest_of r w))]
             @ retire_events r w old m"
    using run_published [OF assms] by simp
  have ex: "run_events (files w) (events ?st @ [FileWrite (newMapPath r w) (snapshot ?st)])
              (newMapPath r w) = Some (snapshot ?st)"
    by (simp add: run_events_append run_events_requests fetch_state_requests)
  show ?thesis
    using tr ex fetch_state_requests [of r w m] retire_events_unlinks [of r w old m]
      new_manifest_url [of r w "manifest_of r w"]
    by blast
qed

theorem C3_snapshot_before_manifest_witness:
  "is_run (ability object_text) scenario (update_ability_map object_text scenario)
     (Some ''ability_map.2026-02-20.json'') [(''a'', JObj [(''id'', JNum (Fin 1))])]
   \<and> outcome (update_ability_map object_text scenario) = Published 1 0
   \<and> (\<exists>pre snap post.
           trace (update_ability_map object_text scenario)
             = pre @ [FileWrite (newMapPath (ability object_text) scenario) snap,
                      FileWrite (manifestPath (ability object_text))
                        (new_manifest (ability object_text) scenario
                           (manifest_of (ability object_text) scenario))] @ post
         \<and> list_all is_request pre \<and> list_all is_unlink post)"
proof -
  have run: "is_run (ability object_text) scenario (update_ability_map object_text scenario)
     (Some ''ability_map.2026-02-20.json'') [(''a'', JObj [(''id'', JNum (Fin 1))])]"
    by (simp add: run_defs)
  have pub: "outcome (update_ability_map object_text scenario) = Published 1 0"
    by (simp add: run_defs)
  show ?thesis
    using run pub C3_snapshot_before_manifest [OF run pub] by blast
qed

text \<open>
  C4 as the code has it. In the ability and pokemon scripts, once the manifest is read and
  the probe answered: if the prior snapshot has keys and the probe gave a number that is
  at most their count, the run stops as a no-op, its only event being the probe request
  and the files being left as they were; in every other case (no key, unknown count, or a
  larger count) the next event is the request of the full listing. The moves script has no
  bootstrap exemption: once its prior snapshot is loaded, it stops whenever the probe gave
  a number that is at most the count of keys, also when there is no key, and requests the
  full listing otherwise.
\<close>

theorem C4_probe_short_circuit:
  "(files w (manifestPath r) \<noteq> None \<and> probe_count r w = Some c \<longrightarrow>
      (if card (knownKeys (prior_boot r w)) \<noteq> 0
          \<and> (\<exists>q. c = Some q \<and> q \<le> of_nat (card (knownKeys (prior_boot r w))))
       then outcome (main_boot r w) = NoOpProbe
          \<and> files_after (main_boot r w) = files w
          \<and> trace (main_boot r w) = [HttpGet (probe_url r)]
       else take 2 (trace (main_boot r w)) = [HttpGet (probe_url r), HttpGet (list_url r)]))
   \<and> (prior_moves r w = Some m \<and> probe_count r w = Some c \<longrightarrow>
      (if (\<exists>q. c = Some q \<and> q \<le> of_nat (card (knownKeys m)))
       then outcome (main_moves r w) = NoOpProbe
          \<and> files_after (main_moves r w) = files w
          \<and> trace (main_moves r w) = [HttpGet (probe_url r)]
       else take 2 (trace (main_moves r w)) = [HttpGet (probe_url r), HttpGet (list_url r)]))"
proof (intro conjI impI)
  assume a: "files w (manifestPath r) \<noteq> None \<and> probe_count r w = Some c"
  let ?K = "knownKeys (prior_boot r w)"
  show "if card ?K \<noteq> 0 \<and> (\<exists>q. c = Some q \<and> q \<le> of_nat (card ?K))
       then outcome (main_boot r w) = NoOpProbe
          \<and> files_after (main_boot r w) = files w
          \<and> trace (main_boot r w) = [HttpGet (probe_url r)]
       else take 2 (trace (main_boot r w)) = [HttpGet (probe_url r), HttpGet (list_url r)]"
  proof (cases "card ?K \<noteq> 0 \<and> count_not_grown c (card ?K)")
    case True
    have "main_boot r w = finished NoOpProbe (files w, [HttpGet (probe_url r)])"
    proof (rule boot_noop)
      show "files w (manifestPath r) \<noteq> None" using a by blast
      show "probe_count r w = Some c" using a by blast
      show "card ?K \<noteq> 0" using True by blast
      show "count_not_grown c (card ?K)" using True by blast
    qed
    then show ?thesis using True by (simp add: finished_def count_not_grown_iff)
  next
    case False
    then have "past_probe r w (main_boot r w) (old_name_boot r w) (prior_boot r w)"
      using a by (simp add: past_probe_def)
    then have "take 2 (trace (main_boot r w)) = [HttpGet (probe_url r), HttpGet (list_url r)]"
      by (rule past_probe_trace)
    then show ?thesis using False by (auto simp: count_not_grown_iff)
  qed
next
  assume a: "prior_moves r w = Some m \<and> probe_count r w = Some c"
  let ?K = "knownKeys m"
  show "if (\<exists>q. c = Some q \<and> q \<le> of_nat (card ?K))
       then outcome (main_moves r w) = NoOpProbe
          \<and> files_after (main_moves r w) = files w
          \<and> trace (main_moves r w) = [HttpGet (probe_url r)]
       else take 2 (trace (main_moves r w)) = [HttpGet (probe_url r), HttpGet (list_url r)]"
  proof (cases "count_not_grown c (card ?K)")
    case True
    have "main_moves r w = finished NoOpProbe (files w, [HttpGet (probe_url r)])"
    proof (rule moves_noop)
      show "prior_moves r w = Some m" using a by blast
      show "probe_count r w = Some c" using a by blast
      show "count_not_grown c (card ?K)" using True by blast
    qed
    then show ?thesis using True by (simp add: finished_def count_not_grown_iff)
  next
    case False
    then have "past_probe r w (main_moves r w) (old_name_moves r w) m"
      using a prior_moves_manifest [of r w m] by (simp add: past_probe_def)
    then have "take 2 (trace (main_moves r w)) = [HttpGet (probe_url r), HttpGet (list_url r)]"
      by (rule past_probe_trace)
    then show ?thesis using False by (auto simp: count_not_grown_iff)
  qed
qed

theorem C4_probe_short_circuit_witness:
  "files scenario_no_growth (manifestPath (ability object_text)) \<noteq> None
   \<and> probe_count (ability object_text) scenario_no_growth = Some (Some 1)
   \<and> card (knownKeys (prior_boot (ability object_text) scenario_no_growth)) \<noteq> 0
   \<and> (1::rat) \<le> of_nat (card (knownKeys (prior_boot (ability object_text) scenario_no_growth)))
   \<and> outcome (main_boot (ability object_text) scenario_no_growth) = NoOpProbe
   \<and> files_after (main_boot (ability object_text) scenario_no_growth) = files scenario_no_growth
   \<and> trace (main_boot (ability object_text) scenario_no_growth)
       = [HttpGet (probe_url (ability object_text))]"
proof -
  have f: "files scenario_no_growth (manifestPath (ability object_text)) \<noteq> None"
    by (simp add: run_defs)
  have p: "probe_count (ability object_text) scenario_no_growth = Some (Some 1)"
    by (simp add: run_defs)
  have k: "card (knownKeys (prior_boot (ability object_text) scenario_no_growth)) = 1"
    by (simp add: run_defs)
  have c: "card (knownKeys (prior_boot (ability object_text) scenario_no_growth)) \<noteq> 0
         \<and> (\<exists>q. Some (1::rat) = Some q
               \<and> q \<le> of_nat (card (knownKeys (prior_boot (ability object_text) scenario_no_growth))))"
    by (simp add: k)
  have "if card (knownKeys (prior_boot (ability object_text) scenario_no_growth)) \<noteq> 0
         \<and> (\<exists>q. Some (1::rat) = Some q
               \<and> q \<le> of_nat (card (knownKeys (prior_boot (ability object_text) scenario_no_growth))))
       then outcome (main_boot (ability object_text) scenario_no_growth) = NoOpProbe
          \<and> files_after (main_boot (ability object_text) scenario_no_growth) = files scenario_no_growth
          \<and> trace (main_boot (ability object_text) scenario_no_growth)
              = [HttpGet (probe_url (ability object_text))]
       else take 2 (trace (main_boot (ability object_text) scenario_no_growth))
              = [HttpGet (probe_url (ability object_text)), HttpGet (list_url (ability object_text))]"
    using C4_probe_short_circuit [of scenario_no_growth "ability object_text" "Some 1" "[]"] f p
    by blast
  then have "outcome (main_boot (ability object_text) scenario_no_growth) = NoOpProbe
          \<and> files_after (main_boot (ability object_text) scenario_no_growth) = files scenario_no_growth
          \<and> trace (main_boot (ability object_text) scenario_no_growth)
              = [HttpGet (probe_url (ability object_text))]"
    using c by (auto split: if_splits)
  then show ?thesis using f p k by simp
qed

text \<open>
  C4 as the specification states it fails in the moves script: with an empty prior
  snapshot and a reported count of 0 the run is in bootstrap in the sense of the claim,
  and it stops without requesting the listing.
\<close>

theorem C4_counterexample:
  "prior_moves (moves object_text) scenario_moves_empty = Some []
   \<and> card (knownKeys []) = 0
   \<and> probe_count (moves object_text) scenario_moves_empty = Some (Some 0)
   \<and> outcome (update_moves_es_map object_text scenario_moves_empty) = NoOpProbe
   \<and> HttpGet (list_url (moves object_text))
       \<notin> set (trace (update_moves_es_map object_text scenario_moves_empty))"
  by (simp add: run_defs)

text \<open>
  C5 as the code has it. In the ability and pokemon scripts, with a manifest whose URL is
  null or names a file that does not exist, the run starts from the empty snapshot with no
  known key, never stops as a no-op on the probe, and requests the full listing whatever
  the probe answered (when the probe request itself fails, the run fails with it). In the
  moves script such a manifest is a thrown error: the run ends before any request, with
  the files untouched.
\<close>

theorem C5_bootstrap:
  assumes mf: "files w (manifestPath r) = Some manifest"
    and boot: "manifest_url r manifest = None
       \<or> (\<exists>u g. manifest_url r manifest = Some u \<and> last_segment u = Some g
                  \<and> files w (join_path (dir r) g) = None)"
  shows "prior_boot r w = [] \<and> knownKeys (prior_boot r w) = {}
       \<and> outcome (main_boot r w) \<noteq> NoOpProbe
       \<and> (\<forall>c. probe_count r w = Some c
              \<longrightarrow> take 2 (trace (main_boot r w)) = [HttpGet (probe_url r), HttpGet (list_url r)])
       \<and> (probe_count r w = None
              \<longrightarrow> main_boot r w = finished (Fatal ProbeFailed) (files w, [HttpGet (probe_url r)]))
       \<and> (\<exists>e. main_moves r w = finished (Fatal e) (files w, []))"
proof -
  have prior: "prior_boot r w = []"
    using mf boot by (auto simp: prior_boot_def manifest_of_def load_state_def)
  have keys: "knownKeys (prior_boot r w) = {}" by (simp add: prior knownKeys_def)
  have pp: "past_probe r w (main_boot r w) (old_name_boot r w) (prior_boot r w)"
    if "probe_count r w = Some c" for c
    using that mf keys by (simp add: past_probe_def)
  have proceeds: "\<forall>c. probe_count r w = Some c
              \<longrightarrow> take 2 (trace (main_boot r w)) = [HttpGet (probe_url r), HttpGet (list_url r)]"
    using pp past_probe_trace by blast
  have failed: "probe_count r w = None
              \<longrightarrow> main_boot r w = finished (Fatal ProbeFailed) (files w, [HttpGet (probe_url r)])"
    using mf by (simp add: boot_probe_failed)
  have never: "outcome (main_boot r w) \<noteq> NoOpProbe"
  proof (cases "probe_count r w")
    case None
    then show ?thesis using failed by (simp add: finished_def)
  next
    case (Some c)
    from past_probe_listing [OF pp [OF Some]] show ?thesis
      by (auto simp: finished_def)
  qed
  have moves: "\<exists>e. main_moves r w = finished (Fatal e) (files w, [])"
    using mf boot by (auto simp: main_moves_def split: option.splits)
  show ?thesis using prior keys never proceeds failed moves by blast
qed

theorem C5_bootstrap_witness:
  "files scenario_bootstrap (manifestPath (ability object_text))
     = Some [(''version'', JNull), (''ability_url'', JNull)]
   \<and> manifest_url (ability object_text) [(''version'', JNull), (''ability_url'', JNull)] = None
   \<and> probe_count (ability object_text) scenario_bootstrap = Some (Some 2)
   \<and> prior_boot (ability object_text) scenario_bootstrap = []
   \<and> outcome (main_boot (ability object_text) scenario_bootstrap) \<noteq> NoOpProbe
   \<and> take 2 (trace (main_boot (ability object_text) scenario_bootstrap))
       = [HttpGet (probe_url (ability object_text)), HttpGet (list_url (ability object_text))]"
proof -
  have mf: "files scenario_bootstrap (manifestPath (ability object_text))
     = Some [(''version'', JNull), (''ability_url'', JNull)]"
    by (simp add: run_defs)
  have nu: "manifest_url (ability object_text) [(''version'', JNull), (''ability_url'', JNull)] = None"
    by (simp add: run_defs)
  have boot: "manifest_url (ability object_text) [(''version'', JNull), (''ability_url'', JNull)] = None
       \<or> (\<exists>u g. manifest_url (ability object_text) [(''version'', JNull), (''ability_url'', JNull)] = Some u
                  \<and> last_segment u = Some g
                  \<and> files scenario_bootstrap (join_path (dir (ability object_text)) g) = None)"
    using nu by simp
  have p: "probe_count (ability object_text) scenario_bootstrap = Some (Some 2)"
    by (simp add: run_defs)
  show ?thesis
    using mf nu p C5_bootstrap [OF mf boot] by blast
qed

text \<open>
  C5 as the specification states it fails in the moves script: with a null URL in the
  manifest the run throws and never reaches the listing.
\<close>

theorem C5_counterexample:
  "files scenario_bootstrap (manifestPath (moves object_text))
     = Some [(''version'', JNull), (''moves_url'', JNull)]
   \<and> manifest_url (moves object_text) [(''version'', JNull), (''moves_url'', JNull)] = None
   \<and> outcome (update_moves_es_map object_text scenario_bootstrap) = Fatal NoUrl
   \<and> trace (update_moves_es_map object_text scenario_bootstrap) = []"
  by (simp add: run_defs)

text \<open>
  C6. In every publishing run, of any of the three scripts: a previous snapshot file
  that exists is unlinked if and only if its name differs from the new file name;
  nothing else is ever unlinked, and nothing at all when no previous name is known;
  after the run no file is left at a previous name that differs. When the two names
  are equal, the new path is the old path, the run only writes the snapshot and the
  manifest, and the files after the run are the files before it with these two
  documents in place: the snapshot file was overwritten where it was.
\<close>

theorem C6_retire_old_file:
  assumes "is_run r w res old m" and "outcome res = Published a f"
  shows "(\<forall>g. old = Some g \<and> files w (join_path (dir r) g) \<noteq> None
            \<longrightarrow> (FileUnlink (join_path (dir r) g) \<in> set (trace res) \<longleftrightarrow> g \<noteq> newFileName r w))
       \<and> (\<forall>p. FileUnlink p \<in> set (trace res)
            \<longrightarrow> (\<exists>g. old = Some g \<and> g \<noteq> newFileName r w \<and> p = join_path (dir r) g))
       \<and> (\<forall>g. old = Some g \<and> g \<noteq> newFileName r w
            \<longrightarrow> files_after res (join_path (dir r) g) = None)
       \<and> (old = Some (newFileName r w)
            \<longrightarrow> join_path (dir r) (newFileName r w) = newMapPath r w
              \<and> writes (trace res)
                  = [(newMapPath r w, snapshot (fetch_state r w m)),
                     (manifestPath r, new_manifest r w (manifest_of r w))]
              \<and> files_after res
                  = (files w)(newMapPath r w := Some (snapshot (fetch_state r w m)),
                              manifestPath r := Some (new_manifest r w (manifest_of r w))))"
proof -
  let ?st = "fetch_state r w m"
  have tr: "trace res = events ?st
             @ [FileWrite (newMapPath r w) (snapshot ?st),
                FileWrite (manifestPath r) (new_manifest r w (manifest_of r w))]
             @ retire_events r w old m"
    and fa: "files_after res = run_events (post_publish r w m) (retire_events r w old m)"
    using run_published [OF assms] by simp_all
  have req: "FileUnlink p \<notin> set (events ?st)" for p
    using fetch_state_requests [of r w m] by (auto simp: list_all_iff)
  have un: "FileUnlink p \<in> set (trace res) \<longleftrightarrow> FileUnlink p \<in> set (retire_events r w old m)" for p
    using tr req by simp
  have a: "\<forall>g. old = Some g \<and> files w (join_path (dir r) g) \<noteq> None
            \<longrightarrow> (FileUnlink (join_path (dir r) g) \<in> set (trace res) \<longleftrightarrow> g \<noteq> newFileName r w)"
    using post_publish_keeps [of w _ r m] by (auto simp: un retire_events_def)
  have b: "\<forall>p. FileUnlink p \<in> set (trace res)
            \<longrightarrow> (\<exists>g. old = Some g \<and> g \<noteq> newFileName r w \<and> p = join_path (dir r) g)"
    by (auto simp: un retire_events_def split: option.splits if_splits)
  have c: "\<forall>g. old = Some g \<and> g \<noteq> newFileName r w
            \<longrightarrow> files_after res (join_path (dir r) g) = None"
    by (auto simp: fa retire_events_def)
  have d: "old = Some (newFileName r w)
            \<longrightarrow> join_path (dir r) (newFileName r w) = newMapPath r w
              \<and> writes (trace res)
                  = [(newMapPath r w, snapshot ?st),
                     (manifestPath r, new_manifest r w (manifest_of r w))]
              \<and> files_after res
                  = (files w)(newMapPath r w := Some (snapshot ?st),
                              manifestPath r := Some (new_manifest r w (manifest_of r w)))"
    by (auto simp: fa tr retire_events_def newMapPath_def post_publish_def writes_append
        writes_requests fetch_state_requests)
  show ?thesis using a b c d by blast
qed

theorem C6_retire_old_file_witness:
  "is_run (ability object_text) scenario (update_ability_map object_text scenario)
     (Some ''ability_map.2026-02-20.json'') [(''a'', JObj [(''id'', JNum (Fin 1))])]
   \<and> outcome (update_ability_map object_text scenario) = Published 1 0
   \<and> files scenario (join_path (dir (ability object_text)) ''ability_map.2026-02-20.json'') \<noteq> None
   \<and> ''ability_map.2026-02-20.json'' \<noteq> newFileName (ability object_text) scenario
   \<and> FileUnlink (join_path (dir (ability object_text)) ''ability_map.2026-02-20.json'')
       \<in> set (trace (update_ability_map object_text scenario))
   \<and> files_after (update_ability_map object_text scenario)
       (join_path (dir (ability object_text)) ''ability_map.2026-02-20.json'') = None"
proof -
  have run: "is_run (ability object_text) scenario (update_ability_map object_text scenario)
     (Some ''ability_map.2026-02-20.json'') [(''a'', JObj [(''id'', JNum (Fin 1))])]"
    by (simp add: run_defs)
  have pub: "outcome (update_ability_map object_text scenario) = Published 1 0"
    by (simp add: run_defs)
  have ex: "files scenario (join_path (dir (ability object_text)) ''ability_map.2026-02-20.json'') \<noteq> None"
    by (simp add: run_defs)
  have ne: "''ability_map.2026-02-20.json'' \<noteq> newFileName (ability object_text) scenario"
    by (simp add: run_defs)
  show ?thesis
    using run pub ex ne C6_retire_old_file [OF run pub] by blast
qed

text \<open>
  C7. The probe extraction returns the reported count exactly when the
  \<^verbatim>\<open>count\<close> field of the listing document is a finite number,
  whatever its value (zero included), and \<^verbatim>\<open>null\<close> in every other
  case: field missing, not a number, or not finite.
\<close>

theorem C7_count_extraction:
  "getCountFromListResponse j =
     (case get_prop j ''count'' of Some (JNum (Fin q)) \<Rightarrow> Some q | _ \<Rightarrow> None)"
  by (cases j) (auto simp: getCountFromListResponse_def split: option.splits json.splits jnum.splits)

text \<open>
  C8 as the code has it. With a pool size of at least 1 and a list that is not empty,
  the pool runs at most min(pool size, number of items) workers, every index is taken
  exactly once, in order, and finished exactly once, and the caller's state is the
  replay of the trace: a callback that ends in its \<^verbatim>\<open>catch\<close> branch is one more step
  of the replay and stops nothing. With a pool size below 1 or NaN no worker is
  started and nothing is attempted. In every case the number of workers is
  \<open>pool_width poolSize (length items)\<close>, the minimum truncated: that many items are
  taken before any response arrives, never more requests are in flight, and all
  workers end.
\<close>

theorem C8_pool_attempts:
  "pool_width poolSize (length items) \<le> length items
   \<and> (\<forall>q. poolSize = Fin q \<and> 0 \<le> q
          \<longrightarrow> of_nat (pool_width poolSize (length items)) \<le> q)
   \<and> (1 \<le> pool_width poolSize (length items)
        \<longleftrightarrow> 1 \<le> length items \<and> (poolSize = PosInf \<or> (\<exists>q. poolSize = Fin q \<and> 1 \<le> q)))
   \<and> take (pool_width poolSize (length items))
            (ptrace (withPool items poolSize start finish sc s))
       = map Take [0..<pool_width poolSize (length items)]
   \<and> flying (withPool items poolSize start finish sc s) = []
   \<and> user (withPool items poolSize start finish sc s)
       = replay items start finish (ptrace (withPool items poolSize start finish sc s)) s
   \<and> (\<forall>evs. prefix evs (ptrace (withPool items poolSize start finish sc s))
          \<longrightarrow> length (taken evs) \<le> length (dones evs) + pool_width poolSize (length items))
   \<and> (1 \<le> pool_width poolSize (length items)
        \<longrightarrow> taken (ptrace (withPool items poolSize start finish sc s)) = [0..<length items]
          \<and> mset (dones (ptrace (withPool items poolSize start finish sc s)))
              = mset [0..<length items])
   \<and> (pool_width poolSize (length items) = 0
        \<longrightarrow> ptrace (withPool items poolSize start finish sc s) = []
          \<and> user (withPool items poolSize start finish sc s) = s)"
proof -
  let ?n = "pool_width poolSize (length items)"
  let ?fin = "withPool items poolSize start finish sc s"
  have inv: "pool_inv items start finish ?n s ?fin" and fl: "flying ?fin = []"
    using withPool_inv [of items start finish poolSize s sc] by simp_all
  have all: "1 \<le> ?n \<longrightarrow> taken (ptrace ?fin) = [0..<length items]
                \<and> mset (dones (ptrace ?fin)) = mset [0..<length items]"
  proof
    assume "1 \<le> ?n"
    then have "counter ?fin = length items" by (rule withPool_all)
    then show "taken (ptrace ?fin) = [0..<length items]
                \<and> mset (dones (ptrace ?fin)) = mset [0..<length items]"
      using inv fl by (simp add: pool_inv_def)
  qed
  have none: "?n = 0 \<longrightarrow> ptrace ?fin = [] \<and> user ?fin = s"
    by (simp add: withPool_idle)
  have size: "\<forall>q. poolSize = Fin q \<and> 0 \<le> q \<longrightarrow> of_nat ?n \<le> q"
    using pool_width_le_size by blast
  have starts: "take ?n (ptrace ?fin) = map Take [0..<?n]"
    by (rule withPool_starts)
  show ?thesis
    using inv fl all none size starts pool_width_le [of poolSize "length items"]
      pool_width_pos_iff [of poolSize "length items"]
    unfolding pool_inv_def by blast
qed

theorem C8_pool_attempts_witness:
  "1 \<le> pool_width (Fin 2) (length [''a'', ''b'', ''c''])
   \<and> take (pool_width (Fin 2) (length [''a'', ''b'', ''c'']))
            (ptrace (withPool [''a'', ''b'', ''c''] (Fin 2) collect collect [1, 0] []))
       = map Take [0..<pool_width (Fin 2) (length [''a'', ''b'', ''c''])]
   \<and> taken (ptrace (withPool [''a'', ''b'', ''c''] (Fin 2) collect collect [1, 0] []))
       = [0..<length [''a'', ''b'', ''c'']]
   \<and> mset (dones (ptrace (withPool [''a'', ''b'', ''c''] (Fin 2) collect collect [1, 0] [])))
       = mset [0..<length [''a'', ''b'', ''c'']]"
proof -
  have w: "1 \<le> pool_width (Fin 2) (length [''a'', ''b'', ''c''])"
    by (simp add: pool_width_def js_min_def to_length_def)
  show ?thesis
    using w C8_pool_attempts [of "Fin 2" "[''a'', ''b'', ''c'']" collect collect "[1, 0]" "[]"]
    by blast
qed

text \<open>
  C8 as the specification states it fails for a pool size below 1: with
  \<^verbatim>\<open>poolSize = 0\<close> and one item no worker is started and the item
  is never attempted.
\<close>

theorem C8_counterexample:
  "user (withPool [''a''] (Fin 0) collect collect [] []) = []
   \<and> taken (ptrace (withPool [''a''] (Fin 0) collect collect [] [])) \<noteq> [0..<length [''a'']]"
  by (simp add: withPool_def pool_width_def js_min_def to_length_def drain_empty)

text \<open>
  C9 as the code has it. The ability script stores as display the text of the first es name,
  else of the first en name, else of the document's own name, and the listing name
  where that gives no text; for every name the diff schedules, the stored display is
  neither empty nor null. The moves script stores the first es name, and null when
  there is none.
\<close>

theorem C9_display_chain:
  "(\<exists>fields. ability_record str a key = Some fields
       \<and> map_of fields ''display'' = Some (fallback_chain str a key))
   \<and> (\<forall>name \<in> set (compute_missing K lst). truthy (fallback_chain str a name))
   \<and> (\<exists>fields. moves_record mv key = Some fields
       \<and> map_of fields ''display''
           = Some (case localized ''es'' (names_list mv) of Some v \<Rightarrow> v | None \<Rightarrow> JNull))"
proof -
  have "\<forall>name \<in> set (compute_missing K lst). truthy (fallback_chain str a name)"
    using missing_truthy [of _ K lst] display_truthy [of _ str a]
    by (auto simp: pick_chain)
  then show ?thesis
    by (simp add: ability_record_def moves_record_def pick_chain moves_chain Let_def)
qed

theorem C9_display_chain_witness:
  "JStr ''stench'' \<in> set (compute_missing {} (JObj [(''results'', JArr [JObj [(''name'', JStr ''stench'')]])]))
   \<and> truthy (fallback_chain object_text (JObj []) (JStr ''stench''))"
proof -
  have m: "JStr ''stench'' \<in> set (compute_missing {} (JObj [(''results'', JArr [JObj [(''name'', JStr ''stench'')]])]))"
    by (simp add: compute_missing_def results_of_def guarded_prop_def entry_name_def has_key_def)
  show ?thesis
    using m C9_display_chain [of object_text "JObj []" "JStr ''stench''" "{}"
        "JObj [(''results'', JArr [JObj [(''name'', JStr ''stench'')]])]" "JObj []"]
    by blast
qed

text \<open>
  C9 as the specification states it fails in the moves script, which has no fallback: a
  move with an English name only is stored with display null. In the ability script the
  document's own name comes before the listing key.
\<close>

theorem C9_counterexample:
  "moves_record
     (JObj [(''names'', JArr [JObj [(''name'', JStr ''Pound''),
                                    (''language'', JObj [(''name'', JStr ''en'')])]])])
     (JStr ''pound'')
     = Some [(''display'', JNull), (''type'', JNull), (''damage_class'', JNull)]
   \<and> ability_display object_text (JObj [(''name'', JStr ''Stench'')]) (JStr ''stench'')
     = JStr ''Stench''"
  by (simp add: moves_record_def moves_display_def pickSpanishName_def guarded_prop_def
      name_in_lang_def sub_name_def field_list_def ability_display_def pickNameEsOrEn_def
      js_String_def Let_def)

text \<open>
  C10. With a pool size that is NaN or below 1, \<^verbatim>\<open>withPool\<close> starts
  no worker and returns with nothing attempted; a run that got past the probe with a
  non-empty missing list then requests no detail, writes the new dated snapshot file with
  the prior snapshot in it, writes the manifest pointing to that file, and unlinks the old
  file when its name differs.
\<close>

theorem C10_pool_below_one:
  assumes pool: "POOL w = NaN \<or> POOL w = NegInf \<or> (\<exists>q. POOL w = Fin q \<and> q < 1)"
  shows "withPool items (POOL w) start finish sc s
           = \<lparr>counter = 0, flying = [], user = s, ptrace = []\<rparr>
       \<and> (\<forall>res old m. past_probe r w res old m \<and> missing_of r w m \<noteq> [] \<longrightarrow>
            outcome res = Published 0 0
          \<and> trace res
              = [HttpGet (probe_url r), HttpGet (list_url r),
                 FileWrite (newMapPath r w) m,
                 FileWrite (manifestPath r) (new_manifest r w (manifest_of r w))]
                @ retire_events r w old m
          \<and> list_all is_unlink (retire_events r w old m)
          \<and> map_of (new_manifest r w (manifest_of r w)) (url_key r)
              = Some (JStr (url_dir r @ newFileName r w))
          \<and> (\<forall>g. old = Some g \<and> g \<noteq> newFileName r w \<longrightarrow>
                files_after res (join_path (dir r) g) = None
              \<and> (files w (join_path (dir r) g) \<noteq> None
                   \<longrightarrow> FileUnlink (join_path (dir r) g) \<in> set (trace res))))"
proof -
  have zero: "pool_width (POOL w) len = 0" for len
    using pool by (rule pool_width_zero)
  have idle: "withPool items (POOL w) start finish sc s
                = \<lparr>counter = 0, flying = [], user = s, ptrace = []\<rparr>"
    using zero by (rule withPool_idle)
  have main: "outcome res = Published 0 0
          \<and> trace res
              = [HttpGet (probe_url r), HttpGet (list_url r),
                 FileWrite (newMapPath r w) m,
                 FileWrite (manifestPath r) (new_manifest r w (manifest_of r w))]
                @ retire_events r w old m
          \<and> list_all is_unlink (retire_events r w old m)
          \<and> map_of (new_manifest r w (manifest_of r w)) (url_key r)
              = Some (JStr (url_dir r @ newFileName r w))
          \<and> (\<forall>g. old = Some g \<and> g \<noteq> newFileName r w \<longrightarrow>
                files_after res (join_path (dir r) g) = None
              \<and> (files w (join_path (dir r) g) \<noteq> None
                   \<longrightarrow> FileUnlink (join_path (dir r) g) \<in> set (trace res)))"
    if pp: "past_probe r w res old m" and ms: "missing_of r w m \<noteq> []" for res old m
  proof -
    have st: "fetch_state r w m = \<lparr>snapshot = m, added = 0, failed = 0,
               events = [HttpGet (probe_url r), HttpGet (list_url r)]\<rparr>"
      using zero by (simp add: fetch_state_def fetch_idle)
    have pub: "outcome res = Published 0 0"
      using past_probe_listing [OF pp] ms st
      by (auto simp: missing_of_def split: response.splits)
    have run: "is_run r w res old m" using pp by (rule past_probe_run)
    have tr: "trace res
              = [HttpGet (probe_url r), HttpGet (list_url r),
                 FileWrite (newMapPath r w) m,
                 FileWrite (manifestPath r) (new_manifest r w (manifest_of r w))]
                @ retire_events r w old m"
      using run_published [OF run pub] st by simp
    have fa: "files_after res = run_events (post_publish r w m) (retire_events r w old m)"
      using run_published [OF run pub] by simp
    have gone: "\<forall>g. old = Some g \<and> g \<noteq> newFileName r w \<longrightarrow>
                files_after res (join_path (dir r) g) = None
              \<and> (files w (join_path (dir r) g) \<noteq> None
                   \<longrightarrow> FileUnlink (join_path (dir r) g) \<in> set (trace res))"
      using post_publish_keeps [of w _ r m] by (auto simp: fa tr retire_events_def)
    show ?thesis
      using pub tr gone retire_events_unlinks [of r w old m]
        new_manifest_url [of r w "manifest_of r w"] by simp
  qed
  show ?thesis using idle main by blast
qed

theorem C10_pool_below_one_witness:
  "(POOL scenario_pool0 = NaN \<or> POOL scenario_pool0 = NegInf
      \<or> (\<exists>q. POOL scenario_pool0 = Fin q \<and> q < 1))
   \<and> past_probe (ability object_text) scenario_pool0
        (update_ability_map object_text scenario_pool0)
        (Some ''ability_map.2026-02-20.json'') [(''a'', JObj [(''id'', JNum (Fin 1))])]
   \<and> missing_of (ability object_text) scenario_pool0 [(''a'', JObj [(''id'', JNum (Fin 1))])] \<noteq> []
   \<and> outcome (update_ability_map object_text scenario_pool0) = Published 0 0
   \<and> files_after (update_ability_map object_text scenario_pool0)
        (join_path (dir (ability object_text)) ''ability_map.2026-02-20.json'') = None"
proof -
  let ?m = "[(''a'', JObj [(''id'', JNum (Fin 1))])]"
  have pool: "POOL scenario_pool0 = NaN \<or> POOL scenario_pool0 = NegInf
      \<or> (\<exists>q. POOL scenario_pool0 = Fin q \<and> q < 1)"
    by (simp add: scenario_pool0_def scenario_def)
  have pp: "past_probe (ability object_text) scenario_pool0
        (update_ability_map object_text scenario_pool0)
        (Some ''ability_map.2026-02-20.json'') ?m"
    by (simp add: past_probe_def probe_count_def run_defs)
  have ms: "missing_of (ability object_text) scenario_pool0 ?m \<noteq> []"
    by (simp add: run_defs)
  have ne: "''ability_map.2026-02-20.json'' \<noteq> newFileName (ability object_text) scenario_pool0"
    by (simp add: run_defs)
  have all: "\<forall>res old m. past_probe (ability object_text) scenario_pool0 res old m
                 \<and> missing_of (ability object_text) scenario_pool0 m \<noteq> [] \<longrightarrow>
            outcome res = Published 0 0
          \<and> trace res
              = [HttpGet (probe_url (ability object_text)), HttpGet (list_url (ability object_text)),
                 FileWrite (newMapPath (ability object_text) scenario_pool0) m,
                 FileWrite (manifestPath (ability object_text))
                   (new_manifest (ability object_text) scenario_pool0
                      (manifest_of (ability object_text) scenario_pool0))]
                @ retire_events (ability object_text) scenario_pool0 old m
          \<and> list_all is_unlink (retire_events (ability object_text) scenario_pool0 old m)
          \<and> map_of (new_manifest (ability object_text) scenario_pool0
                      (manifest_of (ability object_text) scenario_pool0))
                (url_key (ability object_text))
              = Some (JStr (url_dir (ability object_text)
                             @ newFileName (ability object_text) scenario_pool0))
          \<and> (\<forall>g. old = Some g \<and> g \<noteq> newFileName (ability object_text) scenario_pool0 \<longrightarrow>
                files_after res (join_path (dir (ability object_text)) g) = None
              \<and> (files scenario_pool0 (join_path (dir (ability object_text)) g) \<noteq> None
                   \<longrightarrow> FileUnlink (join_path (dir (ability object_text)) g) \<in> set (trace res)))"
    using C10_pool_below_one [OF pool, of "[]" collect collect "[]" "[]" "ability object_text"]
    by (rule conjunct2)
  have out: "outcome (update_ability_map object_text scenario_pool0) = Published 0 0"
    using all pp ms by blast
  have gone: "files_after (update_ability_map object_text scenario_pool0)
        (join_path (dir (ability object_text)) ''ability_map.2026-02-20.json'') = None"
    using all pp ms ne by blast
  show ?thesis
    using pool pp ms out gone by blast
qed

end
